theory Spec2Isabelle
  imports Main "HOL-Library.Word"
begin

unbundle bit_operations_syntax

section \<open>Shared kernel state: CPU masks\<close>

text \<open>
  The kernel keeps one bitmap per CPU property (\<^verbatim>\<open>cpu_possible_mask\<close>,
  \<^verbatim>\<open>cpu_present_mask\<close>, \<^verbatim>\<open>cpu_online_mask\<close>). A mask is modelled as its
  characteristic function on logical CPU numbers; \<open>nr_cpu_ids\<close> is the number of bits
  the iterators look at. \<^verbatim>\<open>for_each_present_cpu\<close> walks the set bits in ascending
  order, \<^verbatim>\<open>num_possible_cpus()\<close> is the weight of the possible mask.
\<close>

record cpumasks =
  nr_cpu_ids :: nat
  cpu_possible_mask :: "nat \<Rightarrow> bool"
  cpu_present_mask :: "nat \<Rightarrow> bool"
  cpu_online_mask :: "nat \<Rightarrow> bool"

definition for_each_cpu :: "nat \<Rightarrow> (nat \<Rightarrow> bool) \<Rightarrow> nat list" where
  "for_each_cpu n bits = filter bits [0..<n]"

definition for_each_present_cpu :: "cpumasks \<Rightarrow> nat list" where
  "for_each_present_cpu m = for_each_cpu (nr_cpu_ids m) (cpu_present_mask m)"

definition num_possible_cpus :: "cpumasks \<Rightarrow> nat" where
  "num_possible_cpus m = length (for_each_cpu (nr_cpu_ids m) (cpu_possible_mask m))"

definition num_present_cpus :: "cpumasks \<Rightarrow> nat" where
  "num_present_cpus m = length (for_each_cpu (nr_cpu_ids m) (cpu_present_mask m))"

section \<open>The PLIC driver (drivers/irqchip/irq-riscv-plic.c)\<close>

subsection \<open>Register layout\<close>

text \<open>
  Registers are addressed by their byte offset from \<^verbatim>\<open>plic_regs\<close>. The constants are
  the macros of the driver.
\<close>

definition MAX_DEVICES :: nat where "MAX_DEVICES = 1024"
definition MAX_CONTEXTS :: nat where "MAX_CONTEXTS = 15872"

definition PRIORITY_BASE :: nat where "PRIORITY_BASE = 0"
definition PRIORITY_PER_ID :: nat where "PRIORITY_PER_ID = 4"

definition ENABLE_BASE :: nat where "ENABLE_BASE = 0x2000"
definition ENABLE_PER_HART :: nat where "ENABLE_PER_HART = 0x80"

definition CONTEXT_BASE :: nat where "CONTEXT_BASE = 0x200000"
definition CONTEXT_PER_HART :: nat where "CONTEXT_PER_HART = 0x1000"
definition CONTEXT_THRESHOLD :: nat where "CONTEXT_THRESHOLD = 0x00"
definition CONTEXT_CLAIM :: nat where "CONTEXT_CLAIM = 0x04"

subsection \<open>Driver state and effects\<close>

text \<open>
  Everything the driver does besides computing is an effect on \<open>plic\<close>: the static
  variables of the file, the memory-mapped registers (a store from byte offsets to
  32-bit words), the \<^verbatim>\<open>sie\<close> CSR of the executing hart, and a chronological trace of
  the externally visible actions (lock operations, register accesses, calls into the
  generic interrupt layer, log messages).

  \<^item> \<open>plic_regs\<close> is the static pointer, \<open>0\<close> for \<^verbatim>\<open>NULL\<close>;
  \<^item> \<open>window_mapped\<close> tells whether the mapping made by \<^verbatim>\<open>of_iomap\<close> exists
    (\<^verbatim>\<open>iounmap\<close> removes it);
  \<^item> \<open>plic_irqdomain\<close> is \<open>None\<close> for \<^verbatim>\<open>NULL\<close> and \<open>Some size\<close> for a linear
    domain with \<open>size\<close> slots;
  \<^item> \<open>handle_arch_irq\<close> tells whether \<^verbatim>\<open>set_handle_irq(plic_handle_irq)\<close> has run.

  Integers that the C code holds in \<^verbatim>\<open>int\<close> or \<^verbatim>\<open>unsigned long\<close> variables (context
  ids, source ids, offsets) are natural numbers here: the model follows the C code for
  all values that fit an \<^verbatim>\<open>int\<close>, which is the type \<^verbatim>\<open>plic_toggle\<close> receives them in.
\<close>

type_synonym u32 = "32 word"
type_synonym ulong = "64 word"

datatype errno = ENXIO | EIO | EINVAL | ENOMEM | EOPNOTSUPP

datatype plic_event =
    SpinLock
  | SpinUnlock
  | Readl nat
  | Writel u32 nat
  | CsrClear ulong
  | CsrSet ulong
  | PrWarnRatelimited nat
  | AckBadIrq int
  | GenericHandleIrq int
  | PrWarning
  | WarnOn
  | PrInfo nat nat nat
  | Iounmap

record plic =
  plic_regs :: ulong
  window_mapped :: bool
  plic_irqdomain :: "nat option"
  handle_arch_irq :: bool
  regs :: "nat \<Rightarrow> u32"
  sie :: ulong
  trace :: "plic_event list"

definition emit :: "plic_event \<Rightarrow> plic \<Rightarrow> plic" where
  "emit e s = s\<lparr>trace := trace s @ [e]\<rparr>"

definition readl :: "nat \<Rightarrow> plic \<Rightarrow> u32 \<times> plic" where
  "readl reg s = (regs s reg, emit (Readl reg) s)"

definition writel :: "u32 \<Rightarrow> nat \<Rightarrow> plic \<Rightarrow> plic" where
  "writel v reg s = emit (Writel v reg) (s\<lparr>regs := (regs s)(reg := v)\<rparr>)"

definition spin_lock :: "plic \<Rightarrow> plic" where
  "spin_lock s = emit SpinLock s"

definition spin_unlock :: "plic \<Rightarrow> plic" where
  "spin_unlock s = emit SpinUnlock s"

definition csr_clear_sie :: "ulong \<Rightarrow> plic \<Rightarrow> plic" where
  "csr_clear_sie bits s = emit (CsrClear bits) (s\<lparr>sie := sie s AND NOT bits\<rparr>)"

definition csr_set_sie :: "ulong \<Rightarrow> plic \<Rightarrow> plic" where
  "csr_set_sie bits s = emit (CsrSet bits) (s\<lparr>sie := sie s OR bits\<rparr>)"

subsection \<open>plic_hart_offset, plic_toggle, plic_irq_toggle\<close>

definition plic_hart_offset :: "nat \<Rightarrow> nat" where
  "plic_hart_offset ctxid = CONTEXT_BASE + ctxid * CONTEXT_PER_HART"

text \<open>The local \<^verbatim>\<open>reg\<close> and \<^verbatim>\<open>hwirq_mask\<close> of \<^verbatim>\<open>plic_toggle\<close>.\<close>

definition enable_reg :: "nat \<Rightarrow> nat \<Rightarrow> nat" where
  "enable_reg ctxid hwirq = ENABLE_BASE + ctxid * ENABLE_PER_HART + (hwirq div 32) * 4"

definition hwirq_mask :: "nat \<Rightarrow> u32" where
  "hwirq_mask hwirq = push_bit (hwirq mod 32) 1"

definition plic_toggle :: "nat \<Rightarrow> nat \<Rightarrow> int \<Rightarrow> plic \<Rightarrow> plic" where
  "plic_toggle ctxid hwirq enable s =
     (let reg = enable_reg ctxid hwirq;
          s1 = spin_lock s;
          s2 = (if enable \<noteq> 0
                then (case readl reg s1 of (v, s') \<Rightarrow> writel (v OR hwirq_mask hwirq) reg s')
                else (case readl reg s1 of (v, s') \<Rightarrow> writel (v AND NOT (hwirq_mask hwirq)) reg s'))
      in spin_unlock s2)"

text \<open>
  \<^verbatim>\<open>plic_irq_toggle(d, enable)\<close>; \<open>hwirq\<close> is \<^verbatim>\<open>d->hwirq\<close>, the present mask is read
  from \<open>m\<close>.
\<close>

definition plic_irq_toggle :: "cpumasks \<Rightarrow> nat \<Rightarrow> int \<Rightarrow> plic \<Rightarrow> plic" where
  "plic_irq_toggle m hwirq enable s =
     fold (\<lambda>cpu. plic_toggle cpu hwirq enable) (for_each_present_cpu m)
       (writel (word_of_int enable) (PRIORITY_BASE + hwirq * PRIORITY_PER_ID) s)"

definition plic_irq_enable :: "cpumasks \<Rightarrow> nat \<Rightarrow> plic \<Rightarrow> plic" where
  "plic_irq_enable m hwirq s = plic_irq_toggle m hwirq 1 s"

definition plic_irq_disable :: "cpumasks \<Rightarrow> nat \<Rightarrow> plic \<Rightarrow> plic" where
  "plic_irq_disable m hwirq s = plic_irq_toggle m hwirq 0 s"

subsection \<open>plic_handle_irq\<close>

text \<open>
  Macros of kernel headers that are not part of the sources at hand enter the model as
  the fields of \<open>kconsts\<close>: \<^verbatim>\<open>THREAD_SIZE\<close>, the \<^verbatim>\<open>sie\<close> bits \<^verbatim>\<open>SIE_SSIE\<close>,
  \<^verbatim>\<open>SIE_STIE\<close> and \<^verbatim>\<open>SIE_SEIE\<close> (software, timer and external interrupt; a bit
  of \<^verbatim>\<open>sip\<close> sits where its enable bit sits in \<^verbatim>\<open>sie\<close>), the cause number \<^verbatim>\<open>INTERRUPT_CAUSE_SOFTWARE\<close>, and the
  configuration switch \<^verbatim>\<open>CONFIG_HOTPLUG_CPU\<close>.
\<close>

record kconsts =
  THREAD_SIZE :: ulong
  SIE_SSIE :: ulong
  SIE_STIE :: ulong
  SIE_SEIE :: ulong
  INTERRUPT_CAUSE_SOFTWARE :: int
  CONFIG_HOTPLUG_CPU :: bool

text \<open>
  The body of the \<^verbatim>\<open>while\<close> loop of \<^verbatim>\<open>plic_handle_irq\<close> for a claimed
  \<open>hwirq\<close>. \<open>irq_find_mapping\<close> is the lookup in \<^verbatim>\<open>plic_irqdomain\<close> (an
  \<^verbatim>\<open>unsigned int\<close>, \<open>0\<close> when there is no mapping), provided by the generic interrupt
  layer; its result is stored in an \<^verbatim>\<open>int\<close>. The calls into that layer are recorded
  in the trace.
\<close>

definition plic_handle_one :: "(ulong \<Rightarrow> u32) \<Rightarrow> nat \<Rightarrow> ulong \<Rightarrow> plic \<Rightarrow> plic" where
  "plic_handle_one irq_find_mapping claim hwirq s =
     (let irq = sint (irq_find_mapping hwirq);
          s1 = (if irq \<le> 0
                then emit (AckBadIrq irq) (emit (PrWarnRatelimited (unat hwirq)) s)
                else emit (GenericHandleIrq irq) s)
      in writel (ucast hwirq) claim s1)"

text \<open>
  The loop \<^verbatim>\<open>while ((hwirq = readl(claim)))\<close>. What a read of the claim register
  returns is decided by the controller and the other harts: \<open>claim_hw k\<close> is the value
  of the \<open>k\<close>-th read of this invocation. The loop need not end, so it is a partial
  function and \<open>None\<close> stands for a handler that never returns.
\<close>

partial_function (option) plic_drain ::
  "(ulong \<Rightarrow> u32) \<Rightarrow> (nat \<Rightarrow> u32) \<Rightarrow> nat \<Rightarrow> nat \<Rightarrow> plic \<Rightarrow> plic option" where
  "plic_drain irq_find_mapping claim_hw claim k s =
     (if (ucast (claim_hw k) :: ulong) \<noteq> 0
      then plic_drain irq_find_mapping claim_hw claim (Suc k)
             (plic_handle_one irq_find_mapping claim (ucast (claim_hw k)) (emit (Readl claim) s))
      else Some (emit (Readl claim) s))"

text \<open>\<open>cpu\<close> is \<^verbatim>\<open>smp_processor_id()\<close>.\<close>

definition plic_handle_irq ::
  "kconsts \<Rightarrow> (ulong \<Rightarrow> u32) \<Rightarrow> (nat \<Rightarrow> u32) \<Rightarrow> nat \<Rightarrow> plic \<Rightarrow> plic option" where
  "plic_handle_irq hdr irq_find_mapping claim_hw cpu s =
     (let claim = plic_hart_offset cpu + CONTEXT_CLAIM in
      case plic_drain irq_find_mapping claim_hw claim 0 (csr_clear_sie (SIE_STIE hdr) s) of
        None \<Rightarrow> None
      | Some s' \<Rightarrow> Some (csr_set_sie (SIE_STIE hdr) s'))"

subsection \<open>plic_init\<close>

text \<open>
  What \<^verbatim>\<open>plic_init\<close> reads from its device-tree node: the address returned by
  \<^verbatim>\<open>of_iomap(node, 0)\<close> (\<open>0\<close> when the mapping fails), the value of the property
  \<^verbatim>\<open>riscv,ndev\<close> (the node is taken to have one; without it the C variable is never
  written), and \<^verbatim>\<open>of_irq_count(node)\<close>. \<open>alloc_ok\<close> tells whether
  \<^verbatim>\<open>irq_domain_add_linear\<close> gets its memory.
\<close>

record device_node =
  of_iomap :: ulong
  riscv_ndev :: u32
  of_irq_count :: nat

definition iounmap :: "plic \<Rightarrow> plic" where
  "iounmap s = emit Iounmap (s\<lparr>window_mapped := False\<rparr>)"

definition set_handle_irq :: "plic \<Rightarrow> plic" where
  "set_handle_irq s = s\<lparr>handle_arch_irq := True\<rparr>"

text \<open>One round of the \<^verbatim>\<open>for_each_present_cpu\<close> loop of \<^verbatim>\<open>plic_init\<close>.\<close>

definition plic_init_cpu :: "nat \<Rightarrow> nat \<Rightarrow> plic \<Rightarrow> plic" where
  "plic_init_cpu nr_irqs cpu s =
     fold (\<lambda>hwirq. plic_toggle cpu hwirq 0) [1..<Suc nr_irqs]
       (writel 0 (plic_hart_offset cpu + CONTEXT_THRESHOLD) s)"

definition plic_init :: "bool \<Rightarrow> cpumasks \<Rightarrow> device_node \<Rightarrow> plic \<Rightarrow> (errno + unit) \<times> plic" where
  "plic_init alloc_ok m node s =
     (if plic_regs s \<noteq> 0 then (Inl ENXIO, emit PrWarning s)
      else
        let s1 = s\<lparr>plic_regs := of_iomap node, window_mapped := (of_iomap node \<noteq> 0)\<rparr> in
        if plic_regs s1 = 0 then (Inl EIO, emit WarnOn s1)
        else
          let nr_irqs = riscv_ndev node in
          if nr_irqs = 0 then (Inl EINVAL, iounmap (emit WarnOn s1))
          else
            let nr_handlers = of_irq_count node in
            if nr_handlers = 0 then (Inl EINVAL, iounmap (emit WarnOn s1))
            else if nr_handlers < num_possible_cpus m then (Inl EINVAL, iounmap (emit WarnOn s1))
            else
              let s2 = s1\<lparr>plic_irqdomain :=
                            (if alloc_ok then Some (unat (nr_irqs + 1)) else None)\<rparr> in
              if plic_irqdomain s2 = None then (Inl ENOMEM, iounmap (emit WarnOn s2))
              else
                case fold (\<lambda>cpu (s, nr_mapped). (plic_init_cpu (unat nr_irqs) cpu s, nr_mapped + 1))
                       (for_each_present_cpu m) (s2, 0 :: nat) of
                  (s3, nr_mapped) \<Rightarrow>
                    (Inr (), set_handle_irq (emit (PrInfo (unat nr_irqs) nr_mapped nr_handlers) s3)))"

subsection \<open>The enable operation in the words of the specification\<close>

text \<open>
  \<open>setEnabled(s, e)\<close> as the specification describes it: one write of 1 or 0 to the
  priority register at offset \<open>4 * s\<close>, then, for every present core's context \<open>c\<close> in
  ascending order, a read-modify-write under the toggle lock of the enable word at offset
  \<open>0x2000 + 0x80 * c + 4 * (s div 32)\<close> that sets or clears bit \<open>s mod 32\<close>.
\<close>

definition setEnabled_spec :: "cpumasks \<Rightarrow> nat \<Rightarrow> bool \<Rightarrow> plic \<Rightarrow> plic" where
  "setEnabled_spec m src e st =
     fold (\<lambda>c st.
            let off = 0x2000 + 0x80 * c + 4 * (src div 32);
                old = regs st off;
                new = (if e then set_bit (src mod 32) old else unset_bit (src mod 32) old)
            in st\<lparr>regs := (regs st)(off := new),
                  trace := trace st @ [SpinLock, Readl off, Writel new off, SpinUnlock]\<rparr>)
       (filter (cpu_present_mask m) [0..<nr_cpu_ids m])
       (st\<lparr>regs := (regs st)(4 * src := (if e then 1 else 0)),
            trace := trace st @ [Writel (if e then 1 else 0) (4 * src)]\<rparr>)"

text \<open>
  The trace of one round of the claim loop as the specification describes it, for the
  value \<open>v\<close> read from the claim register at offset \<open>claim\<close>: a warning and the
  bad-interrupt acknowledgement when the id has no virtual irq, one call of the dispatch
  entry point otherwise, and in both cases one write of \<open>v\<close> back to the claim register.
\<close>

definition claim_round :: "(ulong \<Rightarrow> u32) \<Rightarrow> nat \<Rightarrow> u32 \<Rightarrow> plic_event list" where
  "claim_round irq_find_mapping claim v =
     Readl claim #
     (if sint (irq_find_mapping (ucast v)) \<le> 0
      then [PrWarnRatelimited (unat v), AckBadIrq (sint (irq_find_mapping (ucast v)))]
      else [GenericHandleIrq (sint (irq_find_mapping (ucast v)))])
     @ [Writel v claim]"

subsection \<open>Example configuration\<close>

text \<open>
  A machine with two cores, both possible and present, and a controller with eight
  sources and two contexts; \<open>riscv_consts\<close> holds the values the header macros have on
  64-bit RISC-V.
\<close>

definition example_masks :: cpumasks where
  "example_masks = \<lparr>nr_cpu_ids = 2, cpu_possible_mask = (\<lambda>c. c < 2),
     cpu_present_mask = (\<lambda>c. c < 2), cpu_online_mask = (\<lambda>c. c < 1)\<rparr>"

definition example_node :: device_node where
  "example_node = \<lparr>of_iomap = 0x0C000000, riscv_ndev = 8, of_irq_count = 2\<rparr>"

definition unprobed_plic :: plic where
  "unprobed_plic = \<lparr>plic_regs = 0, window_mapped = False, plic_irqdomain = None,
     handle_arch_irq = False, regs = (\<lambda>_. 0xFFFFFFFF), sie = 0x222, trace = []\<rparr>"

definition example_plic :: plic where
  "example_plic = \<lparr>plic_regs = 0x0C000000, window_mapped = True, plic_irqdomain = Some 9,
     handle_arch_irq = True, regs = (\<lambda>_. 0), sie = 0x222, trace = []\<rparr>"

definition riscv_consts :: kconsts where
  "riscv_consts = \<lparr>THREAD_SIZE = 0x2000, SIE_SSIE = 0x2, SIE_STIE = 0x20, SIE_SEIE = 0x200,
     INTERRUPT_CAUSE_SOFTWARE = 1, CONFIG_HOTPLUG_CPU = True\<rparr>"

text \<open>A controller node with a single context.\<close>

definition one_context_node :: device_node where
  "one_context_node = \<lparr>of_iomap = 0x0C000000, riscv_ndev = 8, of_irq_count = 1\<rparr>"

text \<open>
  A run of the claim register: source 3, then source 7, then nothing pending; and a
  domain in which only source 3 has a virtual irq (number 5).
\<close>

definition example_claims :: "nat \<Rightarrow> u32" where
  "example_claims k = (if k = 0 then 3 else if k = 1 then 7 else 0)"

definition example_mapping :: "ulong \<Rightarrow> u32" where
  "example_mapping hwirq = (if hwirq = 3 then 5 else 0)"

section \<open>Secondary-core bring-up and removal (arch/riscv/kernel/smpboot.c)\<close>

subsection \<open>State\<close>

text \<open>
  The globals of the file and what its functions touch: the CPU masks, the map from
  logical CPU numbers to hart ids (\<^verbatim>\<open>cpu_logical_map\<close>), the two hand-over arrays
  \<^verbatim>\<open>__cpu_up_stack_pointer\<close> and \<^verbatim>\<open>__cpu_up_task_pointer\<close> (indexed by hart id), of
  every task (named by the address of its \<^verbatim>\<open>task_struct\<close>) its stack page and the
  \<^verbatim>\<open>cpu\<close> field of its \<^verbatim>\<open>thread_info\<close>, the CSRs \<^verbatim>\<open>sie\<close>, \<^verbatim>\<open>sip\<close> and
  \<^verbatim>\<open>scause\<close> of the executing hart, and a chronological log of the calls made through
  \<^verbatim>\<open>cpu_ops\<close> and of the calls that leave the file. Names lose their leading
  underscores; \<^verbatim>\<open>__cpu_up\<close> and \<^verbatim>\<open>__cpu_disable\<close> are \<open>arch_cpu_up\<close> and
  \<open>arch_cpu_disable\<close>.
\<close>

datatype smp_event =
    SmpMb
  | CallCpuBoot nat ulong
  | CallCpuDisable nat
  | CallCpuDie nat
  | ArchSendCallFunctionSingleIpi nat
  | CpuRelax
  | PrNoticeOnline nat
  | PrErrFailedToBoot nat nat
  | IrqMigrateAllOffThisCpu
  | IdleTaskExit
  | CpuReportDeath
  | WaitForInterrupt
  | BootSecCpu

record smp =
  masks :: cpumasks
  cpu_logical_map :: "nat \<Rightarrow> nat"
  cpu_up_stack_pointer :: "nat \<Rightarrow> ulong"
  cpu_up_task_pointer :: "nat \<Rightarrow> ulong"
  task_stack_page :: "ulong \<Rightarrow> ulong"
  thread_info_cpu :: "ulong \<Rightarrow> nat"
  csr_sie :: ulong
  csr_sip :: ulong
  csr_scause :: ulong
  calls :: "smp_event list"

definition call :: "smp_event \<Rightarrow> smp \<Rightarrow> smp" where
  "call e s = s\<lparr>calls := calls s @ [e]\<rparr>"

definition cpu_online :: "smp \<Rightarrow> nat \<Rightarrow> bool" where
  "cpu_online s cpu = cpu_online_mask (masks s) cpu"

definition set_cpu_online :: "nat \<Rightarrow> bool \<Rightarrow> smp \<Rightarrow> smp" where
  "set_cpu_online cpu online s =
     s\<lparr>masks := (masks s)\<lparr>cpu_online_mask := (cpu_online_mask (masks s))(cpu := online)\<rparr>\<rparr>"

subsection \<open>cpu_operations\<close>

text \<open>
  A hook of \<^verbatim>\<open>struct cpu_operations\<close> is either absent (\<open>None\<close>), the default of this
  file, or a function of some platform. A status that is \<open>0\<close> or a negated error number
  is a value of \<open>errno + unit\<close>; the result of the boot hook stays an \<^verbatim>\<open>int\<close>, as
  \<^verbatim>\<open>__cpu_up\<close> compares it with the literal it starts from.
\<close>

datatype boot_fn = DEFAULT_CPU_BOOT | PLATFORM_CPU_BOOT "nat \<Rightarrow> ulong \<Rightarrow> smp \<Rightarrow> int \<times> smp"

datatype disable_fn =
  DEFAULT_CPU_DISABLE | PLATFORM_CPU_DISABLE "nat \<Rightarrow> smp \<Rightarrow> (errno + unit) \<times> smp"

datatype die_fn = DEFAULT_CPU_DIE | PLATFORM_CPU_DIE "nat \<Rightarrow> smp \<Rightarrow> smp option"

record cpu_operations =
  cpu_boot :: "boot_fn option"
  cpu_disable :: "disable_fn option"
  cpu_die :: "die_fn option"

definition default_ops :: "kconsts \<Rightarrow> cpu_operations" where
  "default_ops hdr =
     \<lparr>cpu_boot = Some DEFAULT_CPU_BOOT,
      cpu_disable = (if CONFIG_HOTPLUG_CPU hdr then Some DEFAULT_CPU_DISABLE else None),
      cpu_die = (if CONFIG_HOTPLUG_CPU hdr then Some DEFAULT_CPU_DIE else None)\<rparr>"

subsection \<open>default_cpu_boot and __cpu_up\<close>

definition default_cpu_boot :: "kconsts \<Rightarrow> nat \<Rightarrow> ulong \<Rightarrow> smp \<Rightarrow> int \<times> smp" where
  "default_cpu_boot hdr hartid tidle s =
     (0, s\<lparr>cpu_up_stack_pointer :=
              (cpu_up_stack_pointer s)(hartid := task_stack_page s tidle + THREAD_SIZE hdr),
            cpu_up_task_pointer := (cpu_up_task_pointer s)(hartid := tidle)\<rparr>)"

text \<open>The call \<^verbatim>\<open>cpu_ops.cpu_boot(hartid, tidle)\<close> through the function pointer.\<close>

definition call_cpu_boot :: "kconsts \<Rightarrow> boot_fn \<Rightarrow> nat \<Rightarrow> ulong \<Rightarrow> smp \<Rightarrow> int \<times> smp" where
  "call_cpu_boot hdr f hartid tidle s =
     (case f of
        DEFAULT_CPU_BOOT \<Rightarrow> default_cpu_boot hdr hartid tidle (call (CallCpuBoot hartid tidle) s)
      | PLATFORM_CPU_BOOT g \<Rightarrow> g hartid tidle (call (CallCpuBoot hartid tidle) s))"

text \<open>
  The loop \<^verbatim>\<open>while (!cpu_online(cpu)) cpu_relax();\<close>. The online bit of the target
  is set by the target itself, in \<^verbatim>\<open>smp_callin\<close>; \<open>callin k\<close> tells whether that has
  happened when the loop condition is evaluated for the \<open>k\<close>-th time. The loop has no
  bound: \<open>None\<close> is a call that never returns.
\<close>

partial_function (option) wait_online :: "(nat \<Rightarrow> bool) \<Rightarrow> nat \<Rightarrow> nat \<Rightarrow> smp \<Rightarrow> smp option" where
  "wait_online callin cpu k s =
     (if cpu_online (if callin k then set_cpu_online cpu True s else s) cpu
      then Some (if callin k then set_cpu_online cpu True s else s)
      else wait_online callin cpu (Suc k)
             (call CpuRelax (if callin k then set_cpu_online cpu True s else s)))"

definition arch_cpu_up ::
  "kconsts \<Rightarrow> cpu_operations \<Rightarrow> (nat \<Rightarrow> bool) \<Rightarrow> nat \<Rightarrow> ulong \<Rightarrow> smp \<Rightarrow> (int \<times> smp) option" where
  "arch_cpu_up hdr cpu_ops callin cpu tidle s =
     (let hartid = cpu_logical_map s cpu;
          s1 = s\<lparr>thread_info_cpu := (thread_info_cpu s)(tidle := cpu)\<rparr>;
          s2 = call SmpMb s1
      in case (case cpu_boot cpu_ops of
                 Some f \<Rightarrow> call_cpu_boot hdr f hartid tidle s2
               | None \<Rightarrow> (- 1, s2)) of
           (err, s3) \<Rightarrow>
             if err = 0
             then (case wait_online callin cpu 0
                          (if CONFIG_HOTPLUG_CPU hdr
                           then call (ArchSendCallFunctionSingleIpi cpu) s3 else s3) of
                     None \<Rightarrow> None
                   | Some s4 \<Rightarrow> Some (0, call (PrNoticeOnline cpu) s4))
             else Some (0, call (PrErrFailedToBoot cpu hartid) s3))"

subsection \<open>default_cpu_disable and __cpu_disable\<close>




subsection \<open>cpu_play_dead and default_cpu_die\<close>

text \<open>
  The \<^verbatim>\<open>do ... while\<close> loop of \<^verbatim>\<open>default_cpu_die\<close>. \<^verbatim>\<open>sip\<close> and \<^verbatim>\<open>scause\<close> are
  written by the hardware: \<open>wfi_hw k\<close> is the pair of their values when the \<open>k\<close>-th
  \<^verbatim>\<open>wait_for_interrupt()\<close> returns. The three values are read into \<^verbatim>\<open>int\<close> variables,
  which keep the low 32 bits. \<open>None\<close> is a hart that stays in the loop for ever.
\<close>

definition wait_for_interrupt :: "(nat \<Rightarrow> ulong \<times> ulong) \<Rightarrow> nat \<Rightarrow> smp \<Rightarrow> smp" where
  "wait_for_interrupt wfi_hw k s =
     call WaitForInterrupt (s\<lparr>csr_sip := fst (wfi_hw k), csr_scause := snd (wfi_hw k)\<rparr>)"

definition stay_parked :: "kconsts \<Rightarrow> smp \<Rightarrow> bool" where
  "stay_parked hdr s =
     (((ucast (csr_sip s) :: u32) AND ucast (csr_sie s)) = 0
      \<and> sint (ucast (csr_scause s) :: u32) \<noteq> INTERRUPT_CAUSE_SOFTWARE hdr)"

partial_function (option) default_cpu_die_loop ::
  "kconsts \<Rightarrow> (nat \<Rightarrow> ulong \<times> ulong) \<Rightarrow> nat \<Rightarrow> smp \<Rightarrow> smp option" where
  "default_cpu_die_loop hdr wfi_hw k s =
     (if stay_parked hdr (wait_for_interrupt wfi_hw k s)
      then default_cpu_die_loop hdr wfi_hw (Suc k) (wait_for_interrupt wfi_hw k s)
      else Some (wait_for_interrupt wfi_hw k s))"

definition default_cpu_die :: "kconsts \<Rightarrow> (nat \<Rightarrow> ulong \<times> ulong) \<Rightarrow> nat \<Rightarrow> smp \<Rightarrow> smp option" where
  "default_cpu_die hdr wfi_hw cpu s =
     (case default_cpu_die_loop hdr wfi_hw 0 (s\<lparr>csr_sip := 0, csr_scause := 0\<rparr>) of
        None \<Rightarrow> None
      | Some s' \<Rightarrow> Some (call BootSecCpu s'))"

definition call_cpu_die ::
  "kconsts \<Rightarrow> (nat \<Rightarrow> ulong \<times> ulong) \<Rightarrow> die_fn \<Rightarrow> nat \<Rightarrow> smp \<Rightarrow> smp option" where
  "call_cpu_die hdr wfi_hw f cpu s =
     (case f of
        DEFAULT_CPU_DIE \<Rightarrow> default_cpu_die hdr wfi_hw cpu (call (CallCpuDie cpu) s)
      | PLATFORM_CPU_DIE g \<Rightarrow> g cpu (call (CallCpuDie cpu) s))"

definition cpu_play_dead ::
  "kconsts \<Rightarrow> cpu_operations \<Rightarrow> (nat \<Rightarrow> ulong \<times> ulong) \<Rightarrow> nat \<Rightarrow> smp \<Rightarrow> smp option" where
  "cpu_play_dead hdr cpu_ops wfi_hw cpu s =
     (let s1 = call IdleTaskExit s;
          s2 = call CpuReportDeath s1;
          s3 = s2\<lparr>csr_sie := csr_sie s2 AND NOT (SIE_STIE hdr OR SIE_SEIE hdr)\<rparr>
      in case cpu_die cpu_ops of
           Some f \<Rightarrow> call_cpu_die hdr wfi_hw f cpu s3
         | None \<Rightarrow> Some s3)"

subsection \<open>The exit condition of the park loop\<close>

text \<open>
  What ends the wait of a parked hart, for the value \<open>sie_val\<close> of \<^verbatim>\<open>sie\<close> and the pair
  \<open>v\<close> of \<^verbatim>\<open>sip\<close> and \<^verbatim>\<open>scause\<close> found after a wait: some pending interrupt is
  enabled, or the cause register holds the software-interrupt number (both looked at in
  their low 32 bits).
\<close>

definition wake_condition :: "kconsts \<Rightarrow> ulong \<Rightarrow> ulong \<times> ulong \<Rightarrow> bool" where
  "wake_condition hdr sie_val v =
     (((ucast (fst v) :: u32) AND ucast sie_val) \<noteq> 0
      \<or> sint (ucast (snd v) :: u32) = INTERRUPT_CAUSE_SOFTWARE hdr)"

text \<open>
  A software-directed restart cause, as a parked hart can observe it after a wait: the
  software interrupt is pending in \<^verbatim>\<open>sip\<close>, or \<^verbatim>\<open>scause\<close> holds the
  software-interrupt number.
\<close>

definition restart_cause_observed :: "kconsts \<Rightarrow> ulong \<times> ulong \<Rightarrow> bool" where
  "restart_cause_observed hdr v =
     ((fst v AND SIE_SSIE hdr) \<noteq> 0
      \<or> sint (ucast (snd v) :: u32) = INTERRUPT_CAUSE_SOFTWARE hdr)"

subsection \<open>Example configurations\<close>

text \<open>
  The two-core machine after the boot core has come up: core 0 is online, core 1 is not,
  nothing has been published in the hand-over arrays, and \<^verbatim>\<open>sie\<close> has the software,
  timer and external enable bits set.
\<close>

definition example_smp :: smp where
  "example_smp = \<lparr>masks = example_masks, cpu_logical_map = (\<lambda>cpu. cpu),
     cpu_up_stack_pointer = (\<lambda>_. 0), cpu_up_task_pointer = (\<lambda>_. 0),
     task_stack_page = (\<lambda>task. task + 0x10000), thread_info_cpu = (\<lambda>_. 0),
     csr_sie = 0x222, csr_sip = 0, csr_scause = 0, calls = []\<rparr>"

text \<open>A platform whose start primitive reports an error, and a target that never comes up.\<close>

definition failing_boot :: "nat \<Rightarrow> ulong \<Rightarrow> smp \<Rightarrow> int \<times> smp" where
  "failing_boot hartid tidle s = (- 5, s)"

definition failing_boot_ops :: cpu_operations where
  "failing_boot_ops = \<lparr>cpu_boot = Some (PLATFORM_CPU_BOOT failing_boot),
     cpu_disable = None, cpu_die = None\<rparr>"

definition never_online :: "nat \<Rightarrow> bool" where
  "never_online k = False"



text \<open>
  What a parked hart may find in \<^verbatim>\<open>sip\<close> and \<^verbatim>\<open>scause\<close> after each wait: only the
  timer interrupt pending (bit 5), for ever; the timer interrupt pending and, from the
  third wait on, the software interrupt (bit 1) as well. \<^verbatim>\<open>scause\<close> is 0
  throughout.
\<close>

definition timer_only :: "nat \<Rightarrow> ulong \<times> ulong" where
  "timer_only k = (0x20, 0)"

definition ipi_after_two :: "nat \<Rightarrow> ulong \<times> ulong" where
  "ipi_after_two k = (if k < 2 then (0x20, 0) else (0x22, 0))"

section \<open>Properties of the enable matrix\<close>

lemma regs_plic_toggle:
  "regs (plic_toggle c h e s) =
     (regs s)(enable_reg c h :=
        (if e \<noteq> 0 then regs s (enable_reg c h) OR hwirq_mask h
         else regs s (enable_reg c h) AND NOT (hwirq_mask h)))"
  by (simp add: plic_toggle_def Let_def spin_lock_def spin_unlock_def readl_def writel_def
      emit_def)

lemma bit_hwirq_mask: "bit (hwirq_mask h) n \<longleftrightarrow> n = h mod 32"
proof -
  have "h mod 32 < LENGTH(32)" by simp
  then show ?thesis
    unfolding hwirq_mask_def
    by (auto simp add: bit_exp_iff possible_bit_word)
qed

lemma enable_reg_inj:
  assumes "h < 1024" and "w < 32" and "enable_reg c h = enable_reg c' (32 * w)"
  shows "c' = c \<and> w = h div 32"
proof -
  have hw: "h div 32 < 32" using assms(1) by simp
  have eq: "c * 128 + (h div 32) * 4 = c' * 128 + w * 4"
    using assms(3) by (simp add: enable_reg_def ENABLE_BASE_def ENABLE_PER_HART_def)
  then have "c * 32 + h div 32 = c' * 32 + w" by simp
  then have "(c * 32 + h div 32) div 32 = (c' * 32 + w) div 32"
    and "(c * 32 + h div 32) mod 32 = (c' * 32 + w) mod 32" by simp_all
  then show ?thesis using hw assms(2) by simp
qed

lemma plic_toggle_as_update:
  "plic_toggle c h e s =
     s\<lparr>regs := (regs s)(enable_reg c h :=
            (if e \<noteq> 0 then regs s (enable_reg c h) OR hwirq_mask h
             else regs s (enable_reg c h) AND NOT (hwirq_mask h))),
       trace := trace s @ [SpinLock, Readl (enable_reg c h),
          Writel (if e \<noteq> 0 then regs s (enable_reg c h) OR hwirq_mask h
               else regs s (enable_reg c h) AND NOT (hwirq_mask h)) (enable_reg c h),
          SpinUnlock]\<rparr>"
  by (simp add: plic_toggle_def Let_def spin_lock_def spin_unlock_def readl_def writel_def
      emit_def)

text \<open>
  Claim C10. A single \<^verbatim>\<open>plic_toggle(ctxid, hwirq, enable)\<close> for a source id below
  \<^verbatim>\<open>MAX_DEVICES\<close> changes nothing but bit \<open>hwirq mod 32\<close> of the enable word of
  \<open>(ctxid, hwirq div 32)\<close>: every other register keeps its value, every other bit of
  that word keeps its value, every other enable word of this and of any other context
  (word \<open>w < 32\<close> of context \<open>c\<close> is the one holding source \<open>32 * w\<close>) keeps its value, and
  the bit itself becomes the enable flag.
\<close>

theorem plic_toggle_frame:
  assumes "hwirq < MAX_DEVICES"
  shows "(\<forall>a. a \<noteq> enable_reg ctxid hwirq \<longrightarrow>
            regs (plic_toggle ctxid hwirq enable s) a = regs s a)
       \<and> (\<forall>n. n \<noteq> hwirq mod 32 \<longrightarrow>
            bit (regs (plic_toggle ctxid hwirq enable s) (enable_reg ctxid hwirq)) n
              = bit (regs s (enable_reg ctxid hwirq)) n)
       \<and> (\<forall>c w. w < 32 \<longrightarrow> (c, w) \<noteq> (ctxid, hwirq div 32) \<longrightarrow>
            regs (plic_toggle ctxid hwirq enable s) (enable_reg c (32 * w))
              = regs s (enable_reg c (32 * w)))
       \<and> (bit (regs (plic_toggle ctxid hwirq enable s) (enable_reg ctxid hwirq)) (hwirq mod 32)
            \<longleftrightarrow> enable \<noteq> 0)"
proof (intro conjI allI impI)
  fix a assume "a \<noteq> enable_reg ctxid hwirq"
  then show "regs (plic_toggle ctxid hwirq enable s) a = regs s a"
    by (simp add: regs_plic_toggle)
next
  fix n assume "n \<noteq> hwirq mod 32"
  then show "bit (regs (plic_toggle ctxid hwirq enable s) (enable_reg ctxid hwirq)) n
              = bit (regs s (enable_reg ctxid hwirq)) n"
    by (auto simp add: regs_plic_toggle bit_or_iff bit_and_iff bit_not_iff bit_hwirq_mask
        dest: bit_imp_le_length)
next
  fix c w assume "w < 32" and ne: "(c, w) \<noteq> (ctxid, hwirq div 32)"
  with assms [unfolded MAX_DEVICES_def] have "enable_reg c (32 * w) \<noteq> enable_reg ctxid hwirq"
    using enable_reg_inj [of hwirq w ctxid c] by auto
  then show "regs (plic_toggle ctxid hwirq enable s) (enable_reg c (32 * w))
              = regs s (enable_reg c (32 * w))"
    by (simp add: regs_plic_toggle)
next
  have "hwirq mod 32 < LENGTH(32)" by simp
  then show "bit (regs (plic_toggle ctxid hwirq enable s) (enable_reg ctxid hwirq)) (hwirq mod 32)
            \<longleftrightarrow> enable \<noteq> 0"
    by (simp add: regs_plic_toggle bit_or_iff bit_and_iff bit_not_iff bit_hwirq_mask
        possible_bit_word)
qed

theorem plic_toggle_frame_witness:
  "(37::nat) < MAX_DEVICES
   \<and> regs (plic_toggle 1 37 1 example_plic) (enable_reg 1 5) = regs example_plic (enable_reg 1 5)
   \<and> bit (regs (plic_toggle 1 37 1 example_plic) (enable_reg 1 37)) 4
       = bit (regs example_plic (enable_reg 1 37)) 4
   \<and> regs (plic_toggle 1 37 1 example_plic) (enable_reg 2 (32 * 1))
       = regs example_plic (enable_reg 2 (32 * 1))
   \<and> bit (regs (plic_toggle 1 37 1 example_plic) (enable_reg 1 37)) (37 mod 32)"
proof -
  have h: "(37::nat) < MAX_DEVICES" by (simp add: MAX_DEVICES_def)
  note t = plic_toggle_frame [OF h, of 1 1 example_plic]
  have 1: "regs (plic_toggle 1 37 1 example_plic) (enable_reg 1 5)
       = regs example_plic (enable_reg 1 5)"
    using t [THEN conjunct1, rule_format, of "enable_reg 1 5"]
    by (simp add: enable_reg_def)
  have 2: "bit (regs (plic_toggle 1 37 1 example_plic) (enable_reg 1 37)) 4
       = bit (regs example_plic (enable_reg 1 37)) 4"
    using t [THEN conjunct2, THEN conjunct1, rule_format, of 4] by simp
  have 3: "regs (plic_toggle 1 37 1 example_plic) (enable_reg 2 (32 * 1))
       = regs example_plic (enable_reg 2 (32 * 1))"
    using t [THEN conjunct2, THEN conjunct2, THEN conjunct1, rule_format, of 1 2] by simp
  have 4: "bit (regs (plic_toggle 1 37 1 example_plic) (enable_reg 1 37)) (37 mod 32)"
    using t [THEN conjunct2, THEN conjunct2, THEN conjunct2] by simp
  from h 1 2 3 4 show ?thesis by blast
qed

text \<open>
  Claim C6. \<^verbatim>\<open>plic_irq_enable\<close> and \<^verbatim>\<open>plic_irq_disable\<close> do what the
  specification says of \<open>setEnabled\<close>, in the same order and with the same register
  accesses: the priority write comes first, and each enable word is read and written
  between taking and releasing the toggle lock. The source id is one that fits the
  \<^verbatim>\<open>int\<close> parameter of \<^verbatim>\<open>plic_toggle\<close>.
\<close>

theorem plic_irq_toggle_refines_setEnabled:
  assumes "src < 2 ^ 31"
  shows "plic_irq_enable m src st = setEnabled_spec m src True st
   \<and> plic_irq_disable m src st = setEnabled_spec m src False st"
proof -
  have step: "\<And>e c s. plic_toggle c src (if e then 1 else 0) s =
      (let off = 0x2000 + 0x80 * c + 4 * (src div 32);
                old = regs s off;
                new = (if e then set_bit (src mod 32) old else unset_bit (src mod 32) old)
            in s\<lparr>regs := (regs s)(off := new),
                  trace := trace s @ [SpinLock, Readl off, Writel new off, SpinUnlock]\<rparr>)"
    by (simp add: plic_toggle_as_update Let_def enable_reg_def ENABLE_BASE_def
        ENABLE_PER_HART_def hwirq_mask_def set_bit_eq_or unset_bit_eq_and_not mult.commute)
  have "plic_irq_toggle m src (if e then 1 else 0) st = setEnabled_spec m src e st" for e
    unfolding plic_irq_toggle_def setEnabled_spec_def for_each_present_cpu_def for_each_cpu_def
      step
    by (cases e)
      (simp_all add: writel_def emit_def PRIORITY_BASE_def PRIORITY_PER_ID_def mult.commute)
  from this [of True] this [of False] show ?thesis
    by (simp add: plic_irq_enable_def plic_irq_disable_def)
qed

theorem plic_irq_toggle_refines_setEnabled_witness:
  "(37 :: nat) < 2 ^ 31
   \<and> plic_irq_enable example_masks 37 example_plic
       = setEnabled_spec example_masks 37 True example_plic
   \<and> plic_irq_disable example_masks 37 example_plic
       = setEnabled_spec example_masks 37 False example_plic
   \<and> trace (setEnabled_spec example_masks 37 True example_plic)
       = [Writel 1 148, SpinLock, Readl 0x2004, Writel 0x20 0x2004, SpinUnlock,
          SpinLock, Readl 0x2084, Writel 0x20 0x2084, SpinUnlock]"
proof -
  have h: "(37 :: nat) < 2 ^ 31" by simp
  have "trace (setEnabled_spec example_masks 37 True example_plic)
       = [Writel 1 148, SpinLock, Readl 0x2004, Writel 0x20 0x2004, SpinUnlock,
          SpinLock, Readl 0x2084, Writel 0x20 0x2084, SpinUnlock]"
    by (simp add: setEnabled_spec_def example_masks_def example_plic_def upt_conv_Cons Let_def)
  with plic_irq_toggle_refines_setEnabled [OF h, of example_masks example_plic] h
  show ?thesis by simp
qed

section \<open>Properties of controller initialisation\<close>

text \<open>
  Every register access of the initialisation loop either writes zero or clears one bit,
  so no bit of any register is ever set by it. A bit that one step has cleared is
  therefore still clear at the end.
\<close>

lemma plic_toggle_off_only_clears:
  "bit (regs (plic_toggle c h 0 s) a) n \<Longrightarrow> bit (regs s a) n"
  by (cases "a = enable_reg c h") (simp_all add: regs_plic_toggle bit_and_iff)

lemma plic_toggle_off_clears:
  "\<not> bit (regs (plic_toggle c h 0 s) (enable_reg c h)) (h mod 32)"
  by (simp add: regs_plic_toggle bit_and_iff bit_not_iff bit_hwirq_mask)

lemma writel_zero_only_clears:
  "bit (regs (writel 0 r s) a) n \<Longrightarrow> bit (regs s a) n"
  by (cases "a = r") (simp_all add: writel_def emit_def)

lemma fold_toggle_off_only_clears:
  "bit (regs (fold (\<lambda>h. plic_toggle c h 0) hs s) a) n \<Longrightarrow> bit (regs s a) n"
proof (induction hs arbitrary: s)
  case Nil
  then show ?case by simp
next
  case (Cons h hs)
  then have "bit (regs (plic_toggle c h 0 s) a) n" by simp
  then show ?case by (rule plic_toggle_off_only_clears)
qed

lemma fold_toggle_off_clears:
  "h \<in> set hs \<Longrightarrow> \<not> bit (regs (fold (\<lambda>h. plic_toggle c h 0) hs s) (enable_reg c h)) (h mod 32)"
proof (induction hs arbitrary: s)
  case Nil
  then show ?case by simp
next
  case (Cons x hs)
  show ?case
  proof (cases "h \<in> set hs")
    case True
    then show ?thesis using Cons.IH by simp
  next
    case False
    with Cons.prems have "x = h" by simp
    then show ?thesis
      using fold_toggle_off_only_clears [of c hs "plic_toggle c h 0 s" "enable_reg c h" "h mod 32"]
        plic_toggle_off_clears [of c h s]
      by auto
  qed
qed

lemma plic_init_cpu_only_clears:
  "bit (regs (plic_init_cpu nr_irqs c s) a) n \<Longrightarrow> bit (regs s a) n"
  unfolding plic_init_cpu_def
  by (blast dest: fold_toggle_off_only_clears writel_zero_only_clears)

lemma plic_init_cpu_threshold:
  "regs (plic_init_cpu nr_irqs c s) (plic_hart_offset c + CONTEXT_THRESHOLD) = 0"
proof (rule bit_eqI)
  fix n
  have "\<not> bit (regs (plic_init_cpu nr_irqs c s) (plic_hart_offset c + CONTEXT_THRESHOLD)) n"
  proof
    assume "bit (regs (plic_init_cpu nr_irqs c s) (plic_hart_offset c + CONTEXT_THRESHOLD)) n"
    then have "bit (regs (writel 0 (plic_hart_offset c + CONTEXT_THRESHOLD) s)
                 (plic_hart_offset c + CONTEXT_THRESHOLD)) n"
      unfolding plic_init_cpu_def by (rule fold_toggle_off_only_clears)
    then show False by (simp add: writel_def emit_def)
  qed
  then show "bit (regs (plic_init_cpu nr_irqs c s) (plic_hart_offset c + CONTEXT_THRESHOLD)) n
     = bit (0 :: u32) n" by simp
qed

lemma plic_init_cpu_clears:
  "1 \<le> h \<Longrightarrow> h \<le> nr_irqs \<Longrightarrow>
     \<not> bit (regs (plic_init_cpu nr_irqs c s) (enable_reg c h)) (h mod 32)"
  unfolding plic_init_cpu_def by (rule fold_toggle_off_clears) auto

lemma fold_plic_init_cpu_only_clears:
  "bit (regs (fold (plic_init_cpu nr_irqs) cs s) a) n \<Longrightarrow> bit (regs s a) n"
proof (induction cs arbitrary: s)
  case Nil
  then show ?case by simp
next
  case (Cons c cs)
  then have "bit (regs (plic_init_cpu nr_irqs c s) a) n" by simp
  then show ?case by (rule plic_init_cpu_only_clears)
qed

lemma fold_plic_init_cpu_clears:
  assumes "c \<in> set cs" and "1 \<le> h" and "h \<le> nr_irqs"
  shows "\<not> bit (regs (fold (plic_init_cpu nr_irqs) cs s) (enable_reg c h)) (h mod 32)
       \<and> regs (fold (plic_init_cpu nr_irqs) cs s) (plic_hart_offset c + CONTEXT_THRESHOLD) = 0"
  using assms(1)
proof (induction cs arbitrary: s)
  case Nil
  then show ?case by simp
next
  case (Cons x cs)
  show ?case
  proof (cases "c \<in> set cs")
    case True
    then show ?thesis using Cons.IH by simp
  next
    case False
    with Cons.prems have x: "x = c" by simp
    let ?s1 = "plic_init_cpu nr_irqs c s"
    let ?s2 = "fold (plic_init_cpu nr_irqs) cs ?s1"
    have a: "\<not> bit (regs ?s2 (enable_reg c h)) (h mod 32)"
      using fold_plic_init_cpu_only_clears [of nr_irqs cs ?s1]
        plic_init_cpu_clears [OF assms(2,3), of c s] by blast
    have "\<not> bit (regs ?s2 (plic_hart_offset c + CONTEXT_THRESHOLD)) n" for n
      using fold_plic_init_cpu_only_clears [of nr_irqs cs ?s1 _ n]
        plic_init_cpu_threshold [of nr_irqs c s] by fastforce
    then have b: "regs ?s2 (plic_hart_offset c + CONTEXT_THRESHOLD) = 0"
      by (simp add: bit_eq_iff)
    from a b x show ?thesis by simp
  qed
qed

lemma fold_counting:
  "fold (\<lambda>x (s, k). (f x s, Suc k)) xs (s, k) = (fold f xs s, k + length xs)"
  by (induction xs arbitrary: s k) simp_all

lemma set_for_each_present_cpu:
  "c \<in> set (for_each_present_cpu m) \<longleftrightarrow> c < nr_cpu_ids m \<and> cpu_present_mask m c"
  by (auto simp add: for_each_present_cpu_def for_each_cpu_def)

lemma plic_init_success:
  assumes "plic_init alloc_ok m node s = (Inr (), s')"
  shows "regs s' = regs (fold (plic_init_cpu (unat (riscv_ndev node))) (for_each_present_cpu m)
           (s\<lparr>plic_regs := of_iomap node, window_mapped := (of_iomap node \<noteq> 0),
              plic_irqdomain := Some (unat (riscv_ndev node + 1))\<rparr>))"
  using assms
  by (auto simp add: plic_init_def Let_def fold_counting set_handle_irq_def emit_def
      split: if_splits)

lemma example_present: "for_each_present_cpu example_masks = [0, 1]"
  by (simp add: for_each_present_cpu_def for_each_cpu_def example_masks_def upt_conv_Cons)

lemma example_possible: "num_possible_cpus example_masks = 2"
  by (simp add: num_possible_cpus_def for_each_cpu_def example_masks_def upt_conv_Cons)

lemma plic_init_example_succeeds:
  "fst (plic_init True example_masks example_node unprobed_plic) = Inr ()"
  by (simp add: plic_init_def Let_def example_possible example_node_def unprobed_plic_def
      split: prod.splits)

text \<open>
  Claim C4. After a successful \<^verbatim>\<open>plic_init\<close>, for every present core \<open>cpu\<close> and
  every source id from 1 to the value of \<^verbatim>\<open>riscv,ndev\<close>, the enable bit of the source
  in the core's context (bit \<open>hwirq mod 32\<close> of the word at offset
  \<open>0x2000 + 0x80 * cpu + 4 * (hwirq div 32)\<close>) is 0 and the threshold register of the
  core's context (offset \<open>0x200000 + 0x1000 * cpu\<close>) is 0. The registers are named by
  the offsets of the register layout, not by the address computations of the driver. The
  source count is taken below \<open>2 ^ 31\<close>, the range in which the source id survives being
  passed to \<^verbatim>\<open>plic_toggle\<close> as an \<^verbatim>\<open>int\<close>.
\<close>

theorem plic_init_clears_enables:
  assumes "plic_init alloc_ok m node s = (Inr (), s')"
      and "unat (riscv_ndev node) < 2 ^ 31"
      and "cpu < nr_cpu_ids m" and "cpu_present_mask m cpu"
      and "1 \<le> hwirq" and "hwirq \<le> unat (riscv_ndev node)"
  shows "\<not> bit (regs s' (0x2000 + 0x80 * cpu + 4 * (hwirq div 32))) (hwirq mod 32)
       \<and> regs s' (0x200000 + 0x1000 * cpu) = 0"
proof -
  have "cpu \<in> set (for_each_present_cpu m)"
    using assms(3,4) by (simp add: set_for_each_present_cpu)
  from fold_plic_init_cpu_clears [OF this assms(5,6)]
  have "\<not> bit (regs s' (enable_reg cpu hwirq)) (hwirq mod 32)
       \<and> regs s' (plic_hart_offset cpu + CONTEXT_THRESHOLD) = 0"
    by (simp add: plic_init_success [OF assms(1)])
  moreover have "enable_reg cpu hwirq = 0x2000 + 0x80 * cpu + 4 * (hwirq div 32)"
    by (simp add: enable_reg_def ENABLE_BASE_def ENABLE_PER_HART_def)
  moreover have "plic_hart_offset cpu + CONTEXT_THRESHOLD = 0x200000 + 0x1000 * cpu"
    by (simp add: plic_hart_offset_def CONTEXT_BASE_def CONTEXT_PER_HART_def
        CONTEXT_THRESHOLD_def)
  ultimately show ?thesis by simp
qed

theorem plic_init_clears_enables_witness:
  "fst (plic_init True example_masks example_node unprobed_plic) = Inr ()
   \<and> unat (riscv_ndev example_node) < 2 ^ 31
   \<and> (1 :: nat) < nr_cpu_ids example_masks \<and> cpu_present_mask example_masks 1
   \<and> (1 :: nat) \<le> 8 \<and> 8 \<le> unat (riscv_ndev example_node)
   \<and> regs unprobed_plic 0x2080 = 0xFFFFFFFF
   \<and> \<not> bit (regs (snd (plic_init True example_masks example_node unprobed_plic)) 0x2080) 8
   \<and> regs unprobed_plic 0x201000 = 0xFFFFFFFF
   \<and> regs (snd (plic_init True example_masks example_node unprobed_plic)) 0x201000 = 0"
proof -
  let ?r = "plic_init True example_masks example_node unprobed_plic"
  have a: "?r = (Inr (), snd ?r)"
    using plic_init_example_succeeds by (simp add: prod_eq_iff)
  have b: "unat (riscv_ndev example_node) < 2 ^ 31" by (simp add: example_node_def)
  have c: "(1 :: nat) < nr_cpu_ids example_masks" by (simp add: example_masks_def)
  have d: "cpu_present_mask example_masks 1" by (simp add: example_masks_def)
  have e: "(1 :: nat) \<le> 8" by simp
  have f: "8 \<le> unat (riscv_ndev example_node)" by (simp add: example_node_def)
  have g: "regs unprobed_plic 0x2080 = 0xFFFFFFFF" "regs unprobed_plic 0x201000 = 0xFFFFFFFF"
    by (simp_all add: unprobed_plic_def)
  from plic_init_clears_enables [OF a b c d e f] plic_init_example_succeeds b c d e f g
  show ?thesis by simp
qed

lemma plic_init_einval:
  assumes "plic_regs s = 0" and "of_iomap node \<noteq> 0" and "riscv_ndev node \<noteq> 0"
  shows "(fst (plic_init alloc_ok m node s) = Inl EINVAL
           \<longleftrightarrow> of_irq_count node = 0 \<or> of_irq_count node < num_possible_cpus m)
       \<and> (fst (plic_init alloc_ok m node s) = Inl EINVAL
           \<longrightarrow> \<not> window_mapped (snd (plic_init alloc_ok m node s))
             \<and> trace (snd (plic_init alloc_ok m node s)) = trace s @ [WarnOn, Iounmap])"
  using assms
  by (auto simp add: plic_init_def Let_def iounmap_def emit_def split: prod.splits)

lemma example_num_present: "num_present_cpus example_masks = 2"
  by (simp add: num_present_cpus_def for_each_cpu_def example_masks_def upt_conv_Cons)

text \<open>
  Claim C1. \<^verbatim>\<open>plic_init\<close> compares the context count with \<^verbatim>\<open>num_possible_cpus()\<close>.
  The possible and the present mask hold the same cores (\<^verbatim>\<open>setup_smp\<close> sets both bits
  of a core together) and the boot core is among them. Then, on a controller that is not
  yet mapped, whose window can be mapped and whose source count is not zero,
  \<^verbatim>\<open>plic_init\<close> fails with \<^verbatim>\<open>-EINVAL\<close> exactly when the context count is less than
  the number of present cores; the failure goes through \<^verbatim>\<open>out_iounmap\<close>, which releases
  the window that \<^verbatim>\<open>of_iomap\<close> had mapped.
\<close>

theorem plic_init_insufficient_contexts:
  assumes "plic_regs s = 0" and "of_iomap node \<noteq> 0" and "riscv_ndev node \<noteq> 0"
      and "cpu_possible_mask m = cpu_present_mask m" and "0 < num_present_cpus m"
  shows "(fst (plic_init alloc_ok m node s) = Inl EINVAL
           \<longleftrightarrow> of_irq_count node < num_present_cpus m)
       \<and> (fst (plic_init alloc_ok m node s) = Inl EINVAL
           \<longrightarrow> \<not> window_mapped (snd (plic_init alloc_ok m node s))
             \<and> trace (snd (plic_init alloc_ok m node s)) = trace s @ [WarnOn, Iounmap])"
proof -
  have "num_possible_cpus m = num_present_cpus m"
    using assms(4) by (simp add: num_possible_cpus_def num_present_cpus_def)
  with assms(5) have "of_irq_count node = 0 \<or> of_irq_count node < num_possible_cpus m
      \<longleftrightarrow> of_irq_count node < num_present_cpus m"
    by auto
  with plic_init_einval [OF assms(1,2,3), of alloc_ok m] show ?thesis by simp
qed

theorem plic_init_insufficient_contexts_witness:
  "plic_regs unprobed_plic = 0 \<and> of_iomap one_context_node \<noteq> 0
   \<and> riscv_ndev one_context_node \<noteq> 0
   \<and> cpu_possible_mask example_masks = cpu_present_mask example_masks
   \<and> 0 < num_present_cpus example_masks
   \<and> of_irq_count one_context_node < num_present_cpus example_masks
   \<and> fst (plic_init True example_masks one_context_node unprobed_plic) = Inl EINVAL
   \<and> \<not> window_mapped (snd (plic_init True example_masks one_context_node unprobed_plic))
   \<and> trace (snd (plic_init True example_masks one_context_node unprobed_plic))
       = trace unprobed_plic @ [WarnOn, Iounmap]
   \<and> of_iomap example_node \<noteq> 0 \<and> riscv_ndev example_node \<noteq> 0
   \<and> \<not> of_irq_count example_node < num_present_cpus example_masks
   \<and> fst (plic_init True example_masks example_node unprobed_plic) \<noteq> Inl EINVAL"
proof -
  have a: "plic_regs unprobed_plic = 0" by (simp add: unprobed_plic_def)
  have b: "of_iomap one_context_node \<noteq> 0" by (simp add: one_context_node_def)
  have c: "riscv_ndev one_context_node \<noteq> 0" by (simp add: one_context_node_def)
  have b': "of_iomap example_node \<noteq> 0" by (simp add: example_node_def)
  have c': "riscv_ndev example_node \<noteq> 0" by (simp add: example_node_def)
  have d: "cpu_possible_mask example_masks = cpu_present_mask example_masks"
    by (simp add: example_masks_def)
  have e: "0 < num_present_cpus example_masks" by (simp add: example_num_present)
  have f: "of_irq_count one_context_node < num_present_cpus example_masks"
    by (simp add: one_context_node_def example_num_present)
  have f': "\<not> of_irq_count example_node < num_present_cpus example_masks"
    by (simp add: example_node_def example_num_present)
  from plic_init_insufficient_contexts [OF a b c d e, of True]
    plic_init_insufficient_contexts [OF a b' c' d e, of True] a b c b' c' d e f f'
  show ?thesis by simp
qed


section \<open>Properties of the claim loop\<close>

lemma ucast_u32_ulong: "ucast (ucast v :: ulong) = (v :: u32)"
  by (simp add: ucast_up_ucast_id is_up)

lemma unat_ucast_u32_ulong: "unat (ucast v :: ulong) = unat (v :: u32)"
proof -
  have "unat v < 2 ^ 32" using unsigned_less [of v] by simp
  then have "unat v < 2 ^ 64" by simp
  then show ?thesis by (simp add: unsigned_ucast_eq take_bit_nat_eq_self)
qed

lemma ucast_u32_ulong_eq_0: "(ucast v :: ulong) = 0 \<longleftrightarrow> (v :: u32) = 0"
proof
  assume "(ucast v :: ulong) = 0"
  then have "ucast (ucast v :: ulong) = (0 :: u32)" by simp
  then show "v = 0" by (simp add: ucast_u32_ulong)
qed simp

lemma trace_plic_handle_one:
  "trace (plic_handle_one irq_find_mapping claim (ucast v) (emit (Readl claim) s))
     = trace s @ claim_round irq_find_mapping claim v"
  by (simp add: plic_handle_one_def claim_round_def Let_def writel_def emit_def
      unat_ucast_u32_ulong ucast_u32_ulong)

lemma sie_emit: "sie (emit e s) = sie s"
  by (simp add: emit_def)

lemma sie_plic_handle_one:
  "sie (plic_handle_one irq_find_mapping claim h s) = sie s"
  by (simp add: plic_handle_one_def Let_def writel_def emit_def)

lemma plic_drain_run:
  assumes "\<forall>i<length vs. claim_hw (k + i) = vs ! i" and "0 \<notin> set vs"
      and "claim_hw (k + length vs) = 0"
  shows "\<exists>s'. plic_drain irq_find_mapping claim_hw claim k s = Some s'
           \<and> trace s' = trace s @ concat (map (claim_round irq_find_mapping claim) vs)
                          @ [Readl claim]
           \<and> sie s' = sie s"
  using assms
proof (induction vs arbitrary: k s)
  case Nil
  then show ?case
    by (subst plic_drain.simps) (simp add: emit_def)
next
  case (Cons v vs)
  from Cons.prems(1) have hk: "claim_hw k = v" by force
  from Cons.prems(2) have v0: "v \<noteq> 0" by auto
  then have nz: "(ucast v :: ulong) \<noteq> 0" by (simp add: ucast_u32_ulong_eq_0)
  let ?s1 = "plic_handle_one irq_find_mapping claim (ucast v) (emit (Readl claim) s)"
  have step: "plic_drain irq_find_mapping claim_hw claim k s
      = plic_drain irq_find_mapping claim_hw claim (Suc k) ?s1"
    by (subst plic_drain.simps) (simp add: hk nz)
  have a: "\<forall>i<length vs. claim_hw (Suc k + i) = vs ! i"
  proof (intro allI impI)
    fix i assume "i < length vs"
    then have "claim_hw (k + Suc i) = (v # vs) ! Suc i" using Cons.prems(1) by force
    then show "claim_hw (Suc k + i) = vs ! i" by simp
  qed
  have b: "0 \<notin> set vs" using Cons.prems(2) by simp
  have c: "claim_hw (Suc k + length vs) = 0" using Cons.prems(3) by simp
  from Cons.IH [OF a b c, of ?s1] obtain s' where
    r: "plic_drain irq_find_mapping claim_hw claim (Suc k) ?s1 = Some s'"
    and t: "trace s' = trace ?s1 @ concat (map (claim_round irq_find_mapping claim) vs)
                          @ [Readl claim]"
    and e: "sie s' = sie ?s1" by blast
  show ?case
    using r t e by (simp add: step trace_plic_handle_one sie_plic_handle_one sie_emit)
qed

lemma plic_handle_irq_run:
  assumes "\<forall>i<length vs. claim_hw i = vs ! i" and "0 \<notin> set vs"
      and "claim_hw (length vs) = 0"
  shows "\<exists>s'. plic_handle_irq hdr irq_find_mapping claim_hw cpu s = Some s'
           \<and> trace s' = trace s @ [CsrClear (SIE_STIE hdr)]
                 @ concat (map (claim_round irq_find_mapping
                                  (plic_hart_offset cpu + CONTEXT_CLAIM)) vs)
                 @ [Readl (plic_hart_offset cpu + CONTEXT_CLAIM), CsrSet (SIE_STIE hdr)]
           \<and> sie s' = sie s OR SIE_STIE hdr"
proof -
  let ?claim = "plic_hart_offset cpu + CONTEXT_CLAIM"
  let ?s0 = "csr_clear_sie (SIE_STIE hdr) s"
  have a: "\<forall>i<length vs. claim_hw (0 + i) = vs ! i" using assms(1) by simp
  have c: "claim_hw (0 + length vs) = 0" using assms(3) by simp
  from plic_drain_run [OF a assms(2) c, of irq_find_mapping ?claim ?s0] obtain s1 where
    r: "plic_drain irq_find_mapping claim_hw ?claim 0 ?s0 = Some s1"
    and t: "trace s1 = trace ?s0 @ concat (map (claim_round irq_find_mapping ?claim) vs)
                          @ [Readl ?claim]"
    and e: "sie s1 = sie ?s0" by blast
  have "(sie s AND NOT (SIE_STIE hdr)) OR SIE_STIE hdr = sie s OR SIE_STIE hdr"
    by (simp add: bit_eq_iff bit_or_iff bit_and_iff bit_not_iff) blast
  then show ?thesis
    using r t e
    by (simp add: plic_handle_irq_def Let_def csr_set_sie_def csr_clear_sie_def emit_def)
qed

text \<open>
  Claim C5. A round of the loop that reads the nonzero id \<open>v\<close> performs exactly the
  round of the specification: the read, then either the warning and the bad-interrupt
  acknowledgement (no dispatch) or one call of the dispatch entry point, then one write
  of \<open>v\<close> back to the claim register; after it the loop goes on with the next read,
  whether \<open>v\<close> had a mapping or not. So when the claim register yields the nonzero ids
  \<open>vs\<close> and then 0, the handler returns, and between masking and unmasking it has
  performed these rounds for the ids of \<open>vs\<close>, in order, and one last read.
\<close>

theorem plic_handle_irq_rounds:
  assumes "\<forall>i<length vs. claim_hw i = vs ! i" and "0 \<notin> set vs"
      and "claim_hw (length vs) = 0"
  shows "(\<exists>s'. plic_handle_irq hdr irq_find_mapping claim_hw cpu s = Some s'
           \<and> trace s' = trace s @ [CsrClear (SIE_STIE hdr)]
                 @ concat (map (claim_round irq_find_mapping
                                  (plic_hart_offset cpu + CONTEXT_CLAIM)) vs)
                 @ [Readl (plic_hart_offset cpu + CONTEXT_CLAIM), CsrSet (SIE_STIE hdr)])
       \<and> (\<forall>v claim t.
            trace (plic_handle_one irq_find_mapping claim (ucast v) (emit (Readl claim) t))
              = trace t @ claim_round irq_find_mapping claim v)
       \<and> (\<forall>k claim t. claim_hw k \<noteq> 0 \<longrightarrow>
            plic_drain irq_find_mapping claim_hw claim k t
              = plic_drain irq_find_mapping claim_hw claim (Suc k)
                  (plic_handle_one irq_find_mapping claim (ucast (claim_hw k))
                     (emit (Readl claim) t)))"
proof (intro conjI allI impI)
  show "\<exists>s'. plic_handle_irq hdr irq_find_mapping claim_hw cpu s = Some s'
           \<and> trace s' = trace s @ [CsrClear (SIE_STIE hdr)]
                 @ concat (map (claim_round irq_find_mapping
                                  (plic_hart_offset cpu + CONTEXT_CLAIM)) vs)
                 @ [Readl (plic_hart_offset cpu + CONTEXT_CLAIM), CsrSet (SIE_STIE hdr)]"
    using plic_handle_irq_run [OF assms] by blast
next
  fix v claim t
  show "trace (plic_handle_one irq_find_mapping claim (ucast v) (emit (Readl claim) t))
            = trace t @ claim_round irq_find_mapping claim v"
    by (rule trace_plic_handle_one)
next
  fix k claim t assume "claim_hw k \<noteq> 0"
  then show "plic_drain irq_find_mapping claim_hw claim k t
              = plic_drain irq_find_mapping claim_hw claim (Suc k)
                  (plic_handle_one irq_find_mapping claim (ucast (claim_hw k))
                     (emit (Readl claim) t))"
    by (subst plic_drain.simps) (simp add: ucast_u32_ulong_eq_0)
qed

theorem plic_handle_irq_rounds_witness:
  "example_claims 0 = [3, 7] ! 0 \<and> example_claims 1 = [3, 7] ! 1
   \<and> (0 :: u32) \<notin> set [3, 7] \<and> example_claims (length [3 :: u32, 7]) = 0
   \<and> map_option trace (plic_handle_irq riscv_consts example_mapping example_claims 1 example_plic)
      = Some [CsrClear 0x20,
              Readl 0x201004, GenericHandleIrq 5, Writel 3 0x201004,
              Readl 0x201004, PrWarnRatelimited 7, AckBadIrq 0, Writel 7 0x201004,
              Readl 0x201004, CsrSet 0x20]"
proof -
  have a: "\<forall>i<length [3 :: u32, 7]. example_claims i = [3, 7] ! i"
    by (simp add: example_claims_def less_Suc_eq)
  have b: "(0 :: u32) \<notin> set [3, 7]" by simp
  have c: "example_claims (length [3 :: u32, 7]) = 0" by (simp add: example_claims_def)
  from plic_handle_irq_rounds [OF a b c, of riscv_consts example_mapping 1 example_plic,
      THEN conjunct1]
  have "map_option trace (plic_handle_irq riscv_consts example_mapping example_claims 1 example_plic)
      = Some [CsrClear 0x20,
              Readl 0x201004, GenericHandleIrq 5, Writel 3 0x201004,
              Readl 0x201004, PrWarnRatelimited 7, AckBadIrq 0, Writel 7 0x201004,
              Readl 0x201004, CsrSet 0x20]"
    by (auto simp add: claim_round_def example_mapping_def riscv_consts_def example_plic_def
        plic_hart_offset_def CONTEXT_BASE_def CONTEXT_PER_HART_def CONTEXT_CLAIM_def)
  then show ?thesis using b c by (simp add: example_claims_def)
qed

lemma plic_drain_sie:
  "plic_drain irq_find_mapping claim_hw claim k s = Some s' \<Longrightarrow> sie s' = sie s"
  by (erule plic_drain.raw_induct [rotated])
    (auto simp add: sie_plic_handle_one emit_def split: if_splits)

text \<open>
  Claim C9. Whenever \<^verbatim>\<open>plic_handle_irq\<close> returns, \<^verbatim>\<open>SIE_STIE\<close> is set in
  \<^verbatim>\<open>sie\<close>, whatever its value was on entry: the final \<^verbatim>\<open>sie\<close> is the initial one
  with the bit set.
\<close>

theorem plic_handle_irq_sets_stie:
  assumes "plic_handle_irq hdr irq_find_mapping claim_hw cpu s = Some s'"
  shows "sie s' AND SIE_STIE hdr = SIE_STIE hdr \<and> sie s' = sie s OR SIE_STIE hdr"
proof -
  from assms obtain s1 where
    r: "plic_drain irq_find_mapping claim_hw (plic_hart_offset cpu + CONTEXT_CLAIM) 0
          (csr_clear_sie (SIE_STIE hdr) s) = Some s1"
    and s': "s' = csr_set_sie (SIE_STIE hdr) s1"
    by (auto simp add: plic_handle_irq_def Let_def split: option.splits)
  have "sie s1 = sie s AND NOT (SIE_STIE hdr)"
    using plic_drain_sie [OF r] by (simp add: csr_clear_sie_def emit_def)
  moreover have "(sie s AND NOT (SIE_STIE hdr)) OR SIE_STIE hdr = sie s OR SIE_STIE hdr"
    by (simp add: bit_eq_iff bit_or_iff bit_and_iff bit_not_iff) blast
  ultimately have "sie s' = sie s OR SIE_STIE hdr"
    by (simp add: s' csr_set_sie_def emit_def)
  then show ?thesis
    by (simp add: bit_eq_iff bit_or_iff bit_and_iff) blast
qed

theorem plic_handle_irq_sets_stie_witness:
  "map_option sie
     (plic_handle_irq riscv_consts example_mapping example_claims 1 (example_plic\<lparr>sie := 0x202\<rparr>))
     = Some 0x222
   \<and> (0x222 :: ulong) AND SIE_STIE riscv_consts = SIE_STIE riscv_consts"
proof -
  have a: "\<forall>i<length [3 :: u32, 7]. example_claims i = [3, 7] ! i"
    by (simp add: example_claims_def less_Suc_eq)
  have b: "(0 :: u32) \<notin> set [3, 7]" by simp
  have c: "example_claims (length [3 :: u32, 7]) = 0" by (simp add: example_claims_def)
  from plic_handle_irq_run [OF a b c] obtain s' where
    r: "plic_handle_irq riscv_consts example_mapping example_claims 1
          (example_plic\<lparr>sie := 0x202\<rparr>) = Some s'"
    by blast
  from plic_handle_irq_sets_stie [OF r] have "sie s' = 0x222"
    by (simp add: example_plic_def riscv_consts_def)
  then have "map_option sie
     (plic_handle_irq riscv_consts example_mapping example_claims 1 (example_plic\<lparr>sie := 0x202\<rparr>))
     = Some 0x222"
    unfolding r by simp
  moreover have "(0x222 :: ulong) AND SIE_STIE riscv_consts = SIE_STIE riscv_consts"
    by (simp add: riscv_consts_def)
  ultimately show ?thesis by blast
qed


section \<open>Properties of bring-up\<close>

text \<open>
  Claim C2. The claim does not hold of \<^verbatim>\<open>__cpu_up\<close>, which ends in \<^verbatim>\<open>return 0\<close> on
  both branches: when the start primitive reports an error (here \<open>- 5\<close>, for core 1, which
  is not online and never comes online), the failure is logged and the call returns 0,
  the value it returns for a core that has come online.
\<close>

theorem arch_cpu_up_boot_error:
  "arch_cpu_up riscv_consts failing_boot_ops never_online 1 0x80200000 example_smp
     = Some (0, example_smp\<lparr>thread_info_cpu := (thread_info_cpu example_smp)(0x80200000 := 1),
                 calls := [SmpMb, CallCpuBoot 1 0x80200000, PrErrFailedToBoot 1 1]\<rparr>)
   \<and> \<not> cpu_online example_smp 1"
  by (simp add: arch_cpu_up_def Let_def call_cpu_boot_def failing_boot_def failing_boot_ops_def
      call_def example_smp_def cpu_online_def example_masks_def)

lemma wait_online_already:
  "cpu_online s cpu \<Longrightarrow> wait_online callin cpu k s = Some s"
proof -
  assume a: "cpu_online s cpu"
  then have "set_cpu_online cpu True s = s"
    by (simp add: set_cpu_online_def cpu_online_def fun_upd_idem)
  then show ?thesis using a by (subst wait_online.simps) simp
qed

text \<open>
  Claim C3, as the code has it. \<^verbatim>\<open>__cpu_up\<close> does not look at the online bit before it
  acts. On a core that is already online it returns 0 without waiting, but it has set the
  \<^verbatim>\<open>cpu\<close> field of the idle task, called the start primitive again (and, with
  \<^verbatim>\<open>CONFIG_HOTPLUG_CPU\<close>, sent the core an interrupt), and the default start primitive
  has overwritten the core's published stack pointer and task handle with those of the
  idle task passed in.
\<close>

theorem arch_cpu_up_online:
  assumes "cpu_online s cpu"
  shows "arch_cpu_up hdr (default_ops hdr) callin cpu tidle s =
     Some (0, s\<lparr>thread_info_cpu := (thread_info_cpu s)(tidle := cpu),
                cpu_up_stack_pointer := (cpu_up_stack_pointer s)
                  (cpu_logical_map s cpu := task_stack_page s tidle + THREAD_SIZE hdr),
                cpu_up_task_pointer := (cpu_up_task_pointer s)(cpu_logical_map s cpu := tidle),
                calls := calls s @ [SmpMb, CallCpuBoot (cpu_logical_map s cpu) tidle]
                  @ (if CONFIG_HOTPLUG_CPU hdr then [ArchSendCallFunctionSingleIpi cpu] else [])
                  @ [PrNoticeOnline cpu]\<rparr>)"
  using assms
  by (simp add: arch_cpu_up_def Let_def default_ops_def call_cpu_boot_def
      default_cpu_boot_def call_def wait_online_already cpu_online_def)

theorem arch_cpu_up_online_witness:
  "cpu_online example_smp 0
   \<and> arch_cpu_up riscv_consts (default_ops riscv_consts) never_online 0 0x80200000 example_smp =
     Some (0, example_smp\<lparr>thread_info_cpu := (thread_info_cpu example_smp)(0x80200000 := 0),
                cpu_up_stack_pointer := (cpu_up_stack_pointer example_smp)
                  (cpu_logical_map example_smp 0 :=
                     task_stack_page example_smp 0x80200000 + THREAD_SIZE riscv_consts),
                cpu_up_task_pointer := (cpu_up_task_pointer example_smp)
                  (cpu_logical_map example_smp 0 := 0x80200000),
                calls := calls example_smp
                  @ [SmpMb, CallCpuBoot (cpu_logical_map example_smp 0) 0x80200000]
                  @ (if CONFIG_HOTPLUG_CPU riscv_consts
                     then [ArchSendCallFunctionSingleIpi 0] else [])
                  @ [PrNoticeOnline 0]\<rparr>)"
proof -
  have a: "cpu_online example_smp 0"
    by (simp add: cpu_online_def example_smp_def example_masks_def)
  from arch_cpu_up_online [OF a, of riscv_consts never_online "0x80200000"] a
  show ?thesis by simp
qed

text \<open>
  The claim as stated fails on the boot core: it is online and nothing is published for
  it; a call for it invokes the start primitive and leaves a stack pointer and a task
  handle in the hand-over arrays.
\<close>

theorem arch_cpu_up_online_counterexample:
  "cpu_online example_smp 0
   \<and> cpu_up_stack_pointer example_smp (cpu_logical_map example_smp 0) = 0
   \<and> cpu_up_task_pointer example_smp (cpu_logical_map example_smp 0) = 0
   \<and> map_option (\<lambda>r. cpu_up_stack_pointer (snd r) (cpu_logical_map example_smp 0))
        (arch_cpu_up riscv_consts (default_ops riscv_consts) never_online 0 0x80200000 example_smp)
      = Some 0x80212000
   \<and> map_option (\<lambda>r. cpu_up_task_pointer (snd r) (cpu_logical_map example_smp 0))
        (arch_cpu_up riscv_consts (default_ops riscv_consts) never_online 0 0x80200000 example_smp)
      = Some 0x80200000
   \<and> map_option (\<lambda>r. calls (snd r))
        (arch_cpu_up riscv_consts (default_ops riscv_consts) never_online 0 0x80200000 example_smp)
      = Some [SmpMb, CallCpuBoot 0 0x80200000, ArchSendCallFunctionSingleIpi 0, PrNoticeOnline 0]"
proof -
  have a: "cpu_online example_smp 0"
    by (simp add: cpu_online_def example_smp_def example_masks_def)
  have w: "wait_online never_online 0 0 s = Some s" if "cpu_online s 0" for s
    using that by (rule wait_online_already)
  show ?thesis
    by (simp add: arch_cpu_up_def Let_def default_ops_def call_cpu_boot_def
        default_cpu_boot_def call_def riscv_consts_def w cpu_online_def example_smp_def
        example_masks_def)
qed


section \<open>Properties of removal\<close>




lemma stay_parked_wait:
  "stay_parked hdr (wait_for_interrupt wfi_hw k s)
     \<longleftrightarrow> \<not> wake_condition hdr (csr_sie s) (wfi_hw k)"
  by (simp add: stay_parked_def wait_for_interrupt_def wake_condition_def call_def)

lemma csr_sie_wait: "csr_sie (wait_for_interrupt wfi_hw k s) = csr_sie s"
  by (simp add: wait_for_interrupt_def call_def)

lemma default_cpu_die_loop_exits:
  assumes "wake_condition hdr (csr_sie s) (wfi_hw (k + n))"
      and "\<forall>j<n. \<not> wake_condition hdr (csr_sie s) (wfi_hw (k + j))"
  shows "default_cpu_die_loop hdr wfi_hw k s =
           Some (s\<lparr>csr_sip := fst (wfi_hw (k + n)), csr_scause := snd (wfi_hw (k + n)),
                   calls := calls s @ replicate (Suc n) WaitForInterrupt\<rparr>)"
  using assms
proof (induction n arbitrary: k s)
  case 0
  then show ?case
    by (subst default_cpu_die_loop.simps, simp add: stay_parked_wait, intro smp.equality)
      (simp_all add: wait_for_interrupt_def call_def)
next
  case (Suc n)
  let ?s1 = "wait_for_interrupt wfi_hw k s"
  from Suc.prems(2) have "\<not> wake_condition hdr (csr_sie s) (wfi_hw (k + 0))" by blast
  then have step: "default_cpu_die_loop hdr wfi_hw k s
      = default_cpu_die_loop hdr wfi_hw (Suc k) ?s1"
    by (subst default_cpu_die_loop.simps) (simp add: stay_parked_wait)
  have a: "wake_condition hdr (csr_sie ?s1) (wfi_hw (Suc k + n))"
    using Suc.prems(1) by (simp add: csr_sie_wait)
  have b: "\<forall>j<n. \<not> wake_condition hdr (csr_sie ?s1) (wfi_hw (Suc k + j))"
  proof (intro allI impI)
    fix j assume "j < n"
    then have "\<not> wake_condition hdr (csr_sie s) (wfi_hw (k + Suc j))"
      using Suc.prems(2) [rule_format, of "Suc j"] by simp
    then show "\<not> wake_condition hdr (csr_sie ?s1) (wfi_hw (Suc k + j))"
      by (simp add: csr_sie_wait)
  qed
  show ?case
    unfolding step Suc.IH [OF a b]
    by (simp, intro smp.equality) (simp_all add: wait_for_interrupt_def call_def)
qed

lemma default_cpu_die_loop_wakes:
  "default_cpu_die_loop hdr wfi_hw k s = Some s'
     \<Longrightarrow> \<exists>j. wake_condition hdr (csr_sie s) (wfi_hw j)"
proof (erule default_cpu_die_loop.raw_induct [rotated])
  fix f :: "kconsts \<Rightarrow> (nat \<Rightarrow> ulong \<times> ulong) \<Rightarrow> nat \<Rightarrow> smp \<Rightarrow> smp option"
    and hdr wfi_hw k s s'
  assume ih: "\<And>hdr wfi_hw k s s'. f hdr wfi_hw k s = Some s'
                \<Longrightarrow> \<exists>j. wake_condition hdr (csr_sie s) (wfi_hw j)"
    and body: "(if stay_parked hdr (wait_for_interrupt wfi_hw k s)
          then f hdr wfi_hw (Suc k) (wait_for_interrupt wfi_hw k s)
          else Some (wait_for_interrupt wfi_hw k s)) = Some s'"
  show "\<exists>j. wake_condition hdr (csr_sie s) (wfi_hw j)"
  proof (cases "stay_parked hdr (wait_for_interrupt wfi_hw k s)")
    case True
    with body have "f hdr wfi_hw (Suc k) (wait_for_interrupt wfi_hw k s) = Some s'" by simp
    from ih [OF this] show ?thesis by (simp add: csr_sie_wait)
  next
    case False
    then show ?thesis by (auto simp add: stay_parked_wait)
  qed
qed

lemma default_cpu_die_loop_least:
  assumes "wake_condition hdr (csr_sie s) (wfi_hw n)"
      and "\<forall>j<n. \<not> wake_condition hdr (csr_sie s) (wfi_hw j)"
  shows "default_cpu_die_loop hdr wfi_hw 0 s =
           Some (s\<lparr>csr_sip := fst (wfi_hw n), csr_scause := snd (wfi_hw n),
                   calls := calls s @ replicate (Suc n) WaitForInterrupt\<rparr>)"
  using default_cpu_die_loop_exits [of hdr s wfi_hw 0 n] assms by simp

lemma cpu_play_dead_default:
  assumes "cpu_die cpu_ops = Some DEFAULT_CPU_DIE"
  shows "cpu_play_dead hdr cpu_ops wfi_hw cpu s =
     map_option (call BootSecCpu)
       (default_cpu_die_loop hdr wfi_hw 0
          (s\<lparr>csr_sie := csr_sie s AND NOT (SIE_STIE hdr OR SIE_SEIE hdr),
             csr_sip := 0, csr_scause := 0,
             calls := calls s @ [IdleTaskExit, CpuReportDeath, CallCpuDie cpu]\<rparr>))"
proof -
  have "(call (CallCpuDie cpu) ((call CpuReportDeath (call IdleTaskExit s))
            \<lparr>csr_sie := csr_sie (call CpuReportDeath (call IdleTaskExit s))
                 AND NOT (SIE_STIE hdr OR SIE_SEIE hdr)\<rparr>))\<lparr>csr_sip := 0, csr_scause := 0\<rparr>
      = s\<lparr>csr_sie := csr_sie s AND NOT (SIE_STIE hdr OR SIE_SEIE hdr),
             csr_sip := 0, csr_scause := 0,
             calls := calls s @ [IdleTaskExit, CpuReportDeath, CallCpuDie cpu]\<rparr>"
    by (intro smp.equality) (simp_all add: call_def)
  then show ?thesis
    using assms
    by (simp add: cpu_play_dead_def Let_def call_cpu_die_def default_cpu_die_def
        map_option_case)
qed

lemma cpu_play_dead_exits:
  assumes "cpu_die cpu_ops = Some DEFAULT_CPU_DIE"
    and "wake_condition hdr (csr_sie s AND NOT (SIE_STIE hdr OR SIE_SEIE hdr)) (wfi_hw n)"
    and "\<forall>j<n. \<not> wake_condition hdr
                         (csr_sie s AND NOT (SIE_STIE hdr OR SIE_SEIE hdr)) (wfi_hw j)"
  shows "cpu_play_dead hdr cpu_ops wfi_hw cpu s =
                    Some (s\<lparr>csr_sie := csr_sie s AND NOT (SIE_STIE hdr OR SIE_SEIE hdr),
                            csr_sip := fst (wfi_hw n), csr_scause := snd (wfi_hw n),
                            calls := calls s @ [IdleTaskExit, CpuReportDeath, CallCpuDie cpu]
                              @ replicate (Suc n) WaitForInterrupt @ [BootSecCpu]\<rparr>)"
proof -
  let ?e = "csr_sie s AND NOT (SIE_STIE hdr OR SIE_SEIE hdr)"
  let ?s0 = "s\<lparr>csr_sie := ?e, csr_sip := 0, csr_scause := 0,
             calls := calls s @ [IdleTaskExit, CpuReportDeath, CallCpuDie cpu]\<rparr>"
  from assms(2,3) have a: "wake_condition hdr (csr_sie ?s0) (wfi_hw n)"
    and b: "\<forall>j<n. \<not> wake_condition hdr (csr_sie ?s0) (wfi_hw j)" by simp_all
  show ?thesis
    unfolding cpu_play_dead_default [OF assms(1)] default_cpu_die_loop_least [OF a b]
    by (simp, intro smp.equality) (simp_all add: call_def)
qed

lemma wake_is_restart_cause:
  assumes "sie0 AND NOT (SIE_SSIE hdr OR SIE_STIE hdr OR SIE_SEIE hdr) = 0"
      and "wake_condition hdr (sie0 AND NOT (SIE_STIE hdr OR SIE_SEIE hdr)) v"
  shows "restart_cause_observed hdr v"
proof (cases "sint (ucast (snd v) :: u32) = INTERRUPT_CAUSE_SOFTWARE hdr")
  case True
  then show ?thesis by (simp add: restart_cause_observed_def)
next
  case False
  with assms(2) have
    "((ucast (fst v) :: u32) AND ucast (sie0 AND NOT (SIE_STIE hdr OR SIE_SEIE hdr))) \<noteq> 0"
    by (simp add: wake_condition_def)
  then obtain n where
    n: "bit ((ucast (fst v) :: u32) AND ucast (sie0 AND NOT (SIE_STIE hdr OR SIE_SEIE hdr))) n"
    by (auto simp add: bit_eq_iff)
  then have p: "bit (fst v) n" and e: "bit sie0 n"
    and t: "\<not> bit (SIE_STIE hdr) n" and x: "\<not> bit (SIE_SEIE hdr) n"
    by (auto simp add: bit_and_iff bit_ucast_iff bit_not_iff bit_or_iff)
  have "\<not> bit (sie0 AND NOT (SIE_SSIE hdr OR SIE_STIE hdr OR SIE_SEIE hdr)) n"
    unfolding assms(1) by simp
  with e t x have "bit (SIE_SSIE hdr) n"
    by (auto simp add: bit_and_iff bit_not_iff bit_or_iff dest: bit_imp_le_length)
  with p have "bit (fst v AND SIE_SSIE hdr) n" by (simp add: bit_and_iff)
  then have "(fst v AND SIE_SSIE hdr) \<noteq> 0" by auto
  then show ?thesis by (simp add: restart_cause_observed_def)
qed

lemma cpu_play_dead_none_iff:
  assumes "cpu_die cpu_ops = Some DEFAULT_CPU_DIE"
  shows "cpu_play_dead hdr cpu_ops wfi_hw cpu s = None
     \<longleftrightarrow> (\<forall>k. \<not> wake_condition hdr
                  (csr_sie s AND NOT (SIE_STIE hdr OR SIE_SEIE hdr)) (wfi_hw k))"
proof -
  let ?e = "csr_sie s AND NOT (SIE_STIE hdr OR SIE_SEIE hdr)"
  let ?s0 = "s\<lparr>csr_sie := ?e, csr_sip := 0, csr_scause := 0,
             calls := calls s @ [IdleTaskExit, CpuReportDeath, CallCpuDie cpu]\<rparr>"
  note pd = cpu_play_dead_default [OF assms, of hdr wfi_hw cpu s]
  note exits = cpu_play_dead_exits [OF assms, of hdr s wfi_hw _ cpu]
  have e: "csr_sie ?s0 = ?e" by simp
  show ?thesis
  proof
    assume none: "cpu_play_dead hdr cpu_ops wfi_hw cpu s = None"
    show "\<forall>k. \<not> wake_condition hdr ?e (wfi_hw k)"
    proof (rule ccontr)
      assume "\<not> (\<forall>k. \<not> wake_condition hdr ?e (wfi_hw k))"
      then have ex: "\<exists>k. wake_condition hdr ?e (wfi_hw k)" by blast
      define n where "n = (LEAST k. wake_condition hdr ?e (wfi_hw k))"
      have "wake_condition hdr ?e (wfi_hw n)"
        unfolding n_def using ex by (rule LeastI_ex)
      moreover have "\<forall>j<n. \<not> wake_condition hdr ?e (wfi_hw j)"
        unfolding n_def using not_less_Least by blast
      ultimately show False using exits [of n] none by simp
    qed
  next
    assume never: "\<forall>k. \<not> wake_condition hdr ?e (wfi_hw k)"
    have "default_cpu_die_loop hdr wfi_hw 0 ?s0 = None"
    proof (cases "default_cpu_die_loop hdr wfi_hw 0 ?s0")
      case None
      then show ?thesis .
    next
      case (Some s')
      from default_cpu_die_loop_wakes [OF this] never e show ?thesis by simp
    qed
    then show "cpu_play_dead hdr cpu_ops wfi_hw cpu s = None" by (simp add: pd)
  qed
qed

lemma wake_examples:
  "\<not> wake_condition riscv_consts 0x2 (0x20, 0)"
  "wake_condition riscv_consts 0x2 (0x22, 0)"
  by (simp_all add: wake_condition_def riscv_consts_def)

text \<open>
  Claim C7. The kernel enables no interrupts in \<^verbatim>\<open>sie\<close> but the software, timer and
  external one, and \<^verbatim>\<open>cpu_play_dead\<close> clears the timer and external enable bits before
  it parks. With the default die hook, a dying hart then
  \<^item> never leaves the park loop when no wait is followed by a software-directed restart
    cause (a pending software interrupt, or the software-interrupt number in
    \<^verbatim>\<open>scause\<close>);
  \<^item> when it leaves the loop and calls \<^verbatim>\<open>boot_sec_cpu\<close>, does so right after a wait at
    which such a cause was there to observe, and \<^verbatim>\<open>boot_sec_cpu\<close> is its last call and
    the only one after the waits;
  \<^item> stays in the loop exactly as long as the loop condition of \<^verbatim>\<open>default_cpu_die\<close>
    says: it leaves after the first wait at which some pending interrupt is enabled or
    \<^verbatim>\<open>scause\<close> is the software-interrupt number, and never if there is no such wait.
\<close>

theorem cpu_play_dead_parks_until_wake:
  assumes "cpu_die cpu_ops = Some DEFAULT_CPU_DIE"
      and "csr_sie s AND NOT (SIE_SSIE hdr OR SIE_STIE hdr OR SIE_SEIE hdr) = 0"
  shows "((\<forall>k. \<not> restart_cause_observed hdr (wfi_hw k))
            \<longrightarrow> cpu_play_dead hdr cpu_ops wfi_hw cpu s = None)
       \<and> (\<forall>s'. cpu_play_dead hdr cpu_ops wfi_hw cpu s = Some s'
            \<longrightarrow> (\<exists>n. restart_cause_observed hdr (wfi_hw n)
                   \<and> csr_sip s' = fst (wfi_hw n) \<and> csr_scause s' = snd (wfi_hw n)
                   \<and> calls s' = calls s @ [IdleTaskExit, CpuReportDeath, CallCpuDie cpu]
                        @ replicate (Suc n) WaitForInterrupt @ [BootSecCpu]))
       \<and> (cpu_play_dead hdr cpu_ops wfi_hw cpu s = None
            \<longleftrightarrow> (\<forall>k. \<not> wake_condition hdr
                         (csr_sie s AND NOT (SIE_STIE hdr OR SIE_SEIE hdr)) (wfi_hw k)))
       \<and> (\<forall>n. wake_condition hdr (csr_sie s AND NOT (SIE_STIE hdr OR SIE_SEIE hdr)) (wfi_hw n)
              \<longrightarrow> (\<forall>j<n. \<not> wake_condition hdr
                         (csr_sie s AND NOT (SIE_STIE hdr OR SIE_SEIE hdr)) (wfi_hw j))
              \<longrightarrow> cpu_play_dead hdr cpu_ops wfi_hw cpu s =
                    Some (s\<lparr>csr_sie := csr_sie s AND NOT (SIE_STIE hdr OR SIE_SEIE hdr),
                            csr_sip := fst (wfi_hw n), csr_scause := snd (wfi_hw n),
                            calls := calls s @ [IdleTaskExit, CpuReportDeath, CallCpuDie cpu]
                              @ replicate (Suc n) WaitForInterrupt @ [BootSecCpu]\<rparr>))"
proof -
  let ?e = "csr_sie s AND NOT (SIE_STIE hdr OR SIE_SEIE hdr)"
  note exits = cpu_play_dead_exits [OF assms(1), of hdr s wfi_hw _ cpu]
  note none_iff = cpu_play_dead_none_iff [OF assms(1), of hdr wfi_hw cpu s]
  have cause: "restart_cause_observed hdr (wfi_hw k)" if "wake_condition hdr ?e (wfi_hw k)" for k
    using assms(2) that by (rule wake_is_restart_cause)
  have a: "cpu_play_dead hdr cpu_ops wfi_hw cpu s = None"
    if "\<forall>k. \<not> restart_cause_observed hdr (wfi_hw k)"
    using that cause none_iff by blast
  have b: "\<exists>n. restart_cause_observed hdr (wfi_hw n)
                   \<and> csr_sip s' = fst (wfi_hw n) \<and> csr_scause s' = snd (wfi_hw n)
                   \<and> calls s' = calls s @ [IdleTaskExit, CpuReportDeath, CallCpuDie cpu]
                        @ replicate (Suc n) WaitForInterrupt @ [BootSecCpu]"
    if some: "cpu_play_dead hdr cpu_ops wfi_hw cpu s = Some s'" for s'
  proof -
    from some none_iff have ex: "\<exists>k. wake_condition hdr ?e (wfi_hw k)" by auto
    define n where "n = (LEAST k. wake_condition hdr ?e (wfi_hw k))"
    have w: "wake_condition hdr ?e (wfi_hw n)"
      unfolding n_def using ex by (rule LeastI_ex)
    have l: "\<forall>j<n. \<not> wake_condition hdr ?e (wfi_hw j)"
      unfolding n_def using not_less_Least by blast
    from exits [OF w l] some have "s' = s\<lparr>csr_sie := ?e,
                            csr_sip := fst (wfi_hw n), csr_scause := snd (wfi_hw n),
                            calls := calls s @ [IdleTaskExit, CpuReportDeath, CallCpuDie cpu]
                              @ replicate (Suc n) WaitForInterrupt @ [BootSecCpu]\<rparr>"
      by simp
    with cause [OF w] show ?thesis by auto
  qed
  from a b none_iff exits show ?thesis by blast
qed

theorem cpu_play_dead_parks_until_wake_witness:
  "cpu_die (default_ops riscv_consts) = Some DEFAULT_CPU_DIE
   \<and> csr_sie example_smp
        AND NOT (SIE_SSIE riscv_consts OR SIE_STIE riscv_consts OR SIE_SEIE riscv_consts) = 0
   \<and> cpu_play_dead riscv_consts (default_ops riscv_consts) timer_only 1 example_smp = None
   \<and> map_option calls
        (cpu_play_dead riscv_consts (default_ops riscv_consts) ipi_after_two 1 example_smp)
      = Some [IdleTaskExit, CpuReportDeath, CallCpuDie 1,
              WaitForInterrupt, WaitForInterrupt, WaitForInterrupt, BootSecCpu]
   \<and> restart_cause_observed riscv_consts (ipi_after_two 2)"
proof -
  have d: "cpu_die (default_ops riscv_consts) = Some DEFAULT_CPU_DIE"
    by (simp add: default_ops_def riscv_consts_def)
  have h: "csr_sie example_smp
        AND NOT (SIE_SSIE riscv_consts OR SIE_STIE riscv_consts OR SIE_SEIE riscv_consts) = 0"
    by (simp add: example_smp_def riscv_consts_def)
  have e: "csr_sie example_smp AND NOT (SIE_STIE riscv_consts OR SIE_SEIE riscv_consts) = 0x2"
    by (simp add: example_smp_def riscv_consts_def)
  note t = cpu_play_dead_parks_until_wake [OF d h, of _ 1, unfolded e]
  have "\<forall>k. \<not> restart_cause_observed riscv_consts (timer_only k)"
    by (simp add: restart_cause_observed_def timer_only_def riscv_consts_def)
  with t [of timer_only, THEN conjunct1]
  have 1: "cpu_play_dead riscv_consts (default_ops riscv_consts) timer_only 1 example_smp = None"
    by blast
  have 2: "cpu_play_dead riscv_consts (default_ops riscv_consts) ipi_after_two 1 example_smp
      = Some (example_smp\<lparr>csr_sie := 0x2,
                 csr_sip := fst (ipi_after_two 2), csr_scause := snd (ipi_after_two 2),
                 calls := calls example_smp @ [IdleTaskExit, CpuReportDeath, CallCpuDie 1]
                              @ replicate (Suc 2) WaitForInterrupt @ [BootSecCpu]\<rparr>)"
    using t [of ipi_after_two, THEN conjunct2, THEN conjunct2, THEN conjunct2, rule_format, of 2]
    by (simp add: ipi_after_two_def wake_examples less_Suc_eq numeral_2_eq_2)
  have 3: "restart_cause_observed riscv_consts (ipi_after_two 2)"
    by (simp add: restart_cause_observed_def ipi_after_two_def riscv_consts_def)
  from d h 1 2 3 show ?thesis
    by (simp add: example_smp_def numeral_2_eq_2)
qed

end
